theory Spec2Isabelle
  imports Main "HOL-Library.Monad_Syntax" "HOL-Library.Multiset"
begin

text \<open>
  The stats ingestion pipeline of the home-run pool: the scraper of the player listing
  (\<^verbatim>\<open>scrapePlayerStats\<close>, in its CSV and its HTML variant), the resolver that upserts the
  scraped players (\<^verbatim>\<open>seedPlayersToDatabase\<close>, over the Supabase service layer and over
  Prisma), the import of dated snapshots (\<^verbatim>\<open>import2025Season\<close>), and the scoring and
  ranking rules. Effects are explicit: the outcome of the HTTP request and the failures
  of the storage layer are inputs, the database is passed in and returned, an exception
  is a value of a sum type.
\<close>

section \<open>JavaScript string primitives used by the scraper and the import scripts\<close>

text \<open>
  Strings are lists of 8-bit code units. The source works on UTF-16 strings; every
  character class the code tests (quotes, commas, digits, ASCII letters, white space)
  lies in the 8-bit range, where the two agree.
\<close>

definition dquote :: char where
  "dquote = CHR 0x22"

definition newline :: char where
  "newline = CHR 0x0A"

definition comma :: char where
  "comma = CHR '',''"

definition hyphen :: char where
  "hyphen = CHR ''-''"

text \<open>White space of \<^verbatim>\<open>String.prototype.trim\<close> and of the regex class \<^verbatim>\<open>\s\<close>
  (TAB, LF, VT, FF, CR, SPACE, NBSP).\<close>

definition is_space :: "char \<Rightarrow> bool" where
  "is_space c = ((of_char c :: nat) \<in> {9, 10, 11, 12, 13, 32, 160})"

text \<open>The regex class \<^verbatim>\<open>\d\<close>: the ten ASCII digits.\<close>

definition is_digit :: "char \<Rightarrow> bool" where
  "is_digit c = (48 \<le> (of_char c :: nat) \<and> (of_char c :: nat) \<le> 57)"

definition trim :: "string \<Rightarrow> string" where
  "trim s = rev (dropWhile is_space (rev (dropWhile is_space s)))"

text \<open>\<^verbatim>\<open>s.split(c)\<close> for a one-character separator: always at least one piece.\<close>

fun split_on :: "char \<Rightarrow> string \<Rightarrow> string list" where
  "split_on c [] = [[]]"
| "split_on c (x # xs) =
     (if x = c then [] # split_on c xs
      else (case split_on c xs of
              [] \<Rightarrow> [[x]]
            | w # ws \<Rightarrow> (x # w) # ws))"

text \<open>\<^verbatim>\<open>parseInt\<close> on a string of decimal digits (what the regex group \<^verbatim>\<open>(\d+)\<close>
  captures). The source holds the value in a double; the model keeps it exact.\<close>

definition digit_val :: "char \<Rightarrow> int" where
  "digit_val c = of_char c - 48"

definition parse_digits :: "string \<Rightarrow> int" where
  "parse_digits ds = foldl (\<lambda>acc c. 10 * acc + digit_val c) 0 ds"

section \<open>Source Fetcher: \<^verbatim>\<open>scrapePlayerStats\<close> (CSV export variant)\<close>

record PlayerData =
  name :: string
  mlbId :: string
  teamAbbr :: string
  homeRuns :: int
  photoUrl :: "string option"

text \<open>One literal character of a pattern.\<close>

definition lit :: "char \<Rightarrow> string \<Rightarrow> string option" where
  "lit c s = (case s of [] \<Rightarrow> None | x # r \<Rightarrow> if x = c then Some r else None)"

text \<open>A greedy \<^verbatim>\<open>+\<close> over a character class. In the pattern below every such group is
  followed by a character outside its class (or by the end of the pattern), so the
  longest run is the only one a backtracking matcher can accept.\<close>

definition many1 :: "(char \<Rightarrow> bool) \<Rightarrow> string \<Rightarrow> (string \<times> string) option" where
  "many1 p s = (let run = takeWhile p s in
                if run = [] then None else Some (run, dropWhile p s))"

text \<open>The pattern \<^verbatim>\<open>/"([^"]+)",(\d+),(\d+),(\d+)/\<close> tried at the start of \<open>s\<close>;
  the four capture groups.\<close>

definition match_at :: "string \<Rightarrow> (string \<times> string \<times> string \<times> string) option" where
  "match_at s =
     do {
       r1 \<leftarrow> lit dquote s;
       (fullName, r2) \<leftarrow> many1 (\<lambda>c. c \<noteq> dquote) r1;
       r3 \<leftarrow> lit dquote r2;
       r4 \<leftarrow> lit comma r3;
       (playerId, r5) \<leftarrow> many1 is_digit r4;
       r6 \<leftarrow> lit comma r5;
       (year, r7) \<leftarrow> many1 is_digit r6;
       r8 \<leftarrow> lit comma r7;
       (homeRunsStr, r9) \<leftarrow> many1 is_digit r8;
       Some (fullName, playerId, year, homeRunsStr)
     }"

text \<open>\<^verbatim>\<open>line.match(re)\<close> without the \<^verbatim>\<open>g\<close> flag: the leftmost position where the
  pattern matches.\<close>

fun line_match :: "string \<Rightarrow> (string \<times> string \<times> string \<times> string) option" where
  "line_match [] = match_at []"
| "line_match (c # cs) =
     (case match_at (c # cs) of
        Some m \<Rightarrow> Some m
      | None \<Rightarrow> line_match cs)"

text \<open>"Last, First" becomes "First Last"; a name without a comma is kept as it is.\<close>

definition playerName_of :: "string \<Rightarrow> string" where
  "playerName_of fullName =
     (let nameParts = map trim (split_on comma fullName) in
      if length nameParts \<ge> 2 then (nameParts ! 1) @ '' '' @ (nameParts ! 0)
      else fullName)"

text \<open>The body of the \<^verbatim>\<open>for\<close> loop: the records one line contributes (none or one).\<close>

definition scrape_line :: "string \<Rightarrow> PlayerData list" where
  "scrape_line line =
     (case line_match line of
        None \<Rightarrow> []
      | Some (fullName, playerId, year, homeRunsStr) \<Rightarrow>
          (let homeRuns = parse_digits homeRunsStr in
           if homeRuns \<ge> 10
           then [\<lparr> name = playerName_of fullName,
                   mlbId = ''mlb-'' @ playerId,
                   teamAbbr = ''UNK'',
                   homeRuns = homeRuns,
                   photoUrl = None \<rparr>]
           else []))"

definition csvLines_of :: "string \<Rightarrow> string list" where
  "csvLines_of data = filter (\<lambda>line. trim line \<noteq> []) (split_on newline data)"

text \<open>The loop starts at index 1: the header row is skipped.\<close>

definition scrape_csv :: "string \<Rightarrow> PlayerData list" where
  "scrape_csv data = concat (map scrape_line (drop 1 (csvLines_of data)))"

text \<open>
  The outcome of \<^verbatim>\<open>axios.get\<close>: the promise rejects (network error, timeout, non-2xx
  status) with an error message, or resolves with \<^verbatim>\<open>response.data\<close>, which is a string
  or some other value (axios parses a JSON body); on the latter \<^verbatim>\<open>response.data.split\<close>
  throws a TypeError, whose message \<open>NonText\<close> carries.
\<close>

datatype axios_data = Text string | NonText string

datatype axios_outcome = Rejected string | Resolved axios_data

datatype js_error = Error string

definition scrape_failed :: "string \<Rightarrow> js_error" where
  "scrape_failed msg = Error (''Failed to scrape player data: '' @ msg)"

fun scrapePlayerStats :: "axios_outcome \<Rightarrow> js_error + PlayerData list" where
  "scrapePlayerStats (Rejected msg) = Inl (scrape_failed msg)"
| "scrapePlayerStats (Resolved (NonText msg)) = Inl (scrape_failed msg)"
| "scrapePlayerStats (Resolved (Text data)) = Inr (scrape_csv data)"

section \<open>Source Fetcher: \<^verbatim>\<open>scrapePlayerStats\<close> (HTML table variant)\<close>

text \<open>\<^verbatim>\<open>parseInt(s)\<close> with no radix: leading white space, an optional sign, an optional
  \<^verbatim>\<open>0x\<close> prefix selecting radix 16, then the longest run of digits; \<open>None\<close> is NaN.\<close>

definition is_hex_digit :: "char \<Rightarrow> bool" where
  "is_hex_digit c = (let n = (of_char c :: nat) in
     (48 \<le> n \<and> n \<le> 57) \<or> (65 \<le> n \<and> n \<le> 70) \<or> (97 \<le> n \<and> n \<le> 102))"

definition hex_val :: "char \<Rightarrow> int" where
  "hex_val c = (let n = (of_char c :: int) in
     if n \<le> 57 then n - 48 else if n \<le> 70 then n - 55 else n - 87)"

definition parseInt :: "string \<Rightarrow> int option" where
  "parseInt s =
     (let s1 = dropWhile is_space s;
          (sgn, s2) = (case s1 of
                         [] \<Rightarrow> (1, s1)
                       | c # r \<Rightarrow> if c = CHR ''-'' then (- 1, r)
                                  else if c = CHR ''+'' then (1, r) else (1, s1))
      in if take 2 s2 = ''0x'' \<or> take 2 s2 = ''0X''
         then (let ds = takeWhile is_hex_digit (drop 2 s2) in
               if ds = [] then None
               else Some (sgn * foldl (\<lambda>acc c. 16 * acc + hex_val c) 0 ds))
         else (let ds = takeWhile is_digit s2 in
               if ds = [] then None else Some (sgn * parse_digits ds)))"

text \<open>\<^verbatim>\<open>toLowerCase\<close> on 8-bit code units: A to Z, and the Latin-1 capitals.\<close>

definition to_lower :: "char \<Rightarrow> char" where
  "to_lower c = (let n = (of_char c :: nat) in
     if (65 \<le> n \<and> n \<le> 90) \<or> (192 \<le> n \<and> n \<le> 222 \<and> n \<noteq> 215)
     then char_of (n + 32) else c)"

text \<open>\<^verbatim>\<open>.replace(/\s+/g, '-')\<close>: every maximal run of white space becomes one hyphen.\<close>

function replace_spaces :: "string \<Rightarrow> string" where
  "replace_spaces [] = []"
| "replace_spaces (c # cs) =
     (if is_space c then hyphen # replace_spaces (dropWhile is_space cs)
      else c # replace_spaces cs)"
  by pat_completeness auto
termination
  by (relation "measure length") (auto simp: length_dropWhile_le less_Suc_eq_le)

text \<open>The class \<^verbatim>\<open>[a-z0-9-]\<close>; \<^verbatim>\<open>.replace(/[^a-z0-9-]/g, '')\<close> keeps exactly its members.\<close>

definition is_slug_char :: "char \<Rightarrow> bool" where
  "is_slug_char c = (let n = (of_char c :: nat) in
     (97 \<le> n \<and> n \<le> 122) \<or> (48 \<le> n \<and> n \<le> 57) \<or> c = hyphen)"

text \<open>Template-literal rendering of a non-negative integer (\<^verbatim>\<open>`player-${index}`\<close>).\<close>

function show_nat :: "nat \<Rightarrow> string" where
  "show_nat n = (if n < 10 then [char_of (48 + n)]
                 else show_nat (n div 10) @ [char_of (48 + n mod 10)])"
  by pat_completeness auto
termination
  by (relation "measure id") auto

definition html_mlbId :: "string \<Rightarrow> nat \<Rightarrow> string" where
  "html_mlbId playerName index =
     (let s = filter is_slug_char (replace_spaces (map to_lower playerName)) in
      if s = [] then ''player-'' @ show_nat index else s)"

text \<open>A table row is the list of the texts of its \<^verbatim>\<open>td\<close> cells, in document order, as
  cheerio's \<^verbatim>\<open>$row.find('td')\<close> yields them; \<^verbatim>\<open>.eq(i).text()\<close> of a missing cell and
  \<^verbatim>\<open>.last().text()\<close> of an empty selection are the empty string.\<close>

definition td_text :: "string list \<Rightarrow> nat \<Rightarrow> string" where
  "td_text row i = (if i < length row then trim (row ! i) else [])"

definition td_last_text :: "string list \<Rightarrow> string" where
  "td_last_text row = (if row = [] then [] else trim (last row))"

definition scrape_row :: "nat \<Rightarrow> string list \<Rightarrow> PlayerData list" where
  "scrape_row index row =
     (let playerName = td_text row 0;
          teamText = td_text row 1;
          teamAbbr = (case split_on comma teamText of [] \<Rightarrow> [] | t # _ \<Rightarrow> trim t);
          homeRuns = (case parseInt (td_last_text row) of None \<Rightarrow> 0 | Some h \<Rightarrow> h);
          mlbId = html_mlbId playerName index
      in if playerName \<noteq> [] \<and> teamAbbr \<noteq> [] \<and> homeRuns \<ge> 10
         then [\<lparr> name = playerName, mlbId = mlbId, teamAbbr = teamAbbr,
                 homeRuns = homeRuns, photoUrl = None \<rparr>]
         else [])"

text \<open>The \<^verbatim>\<open>.each((index, element) => ...)\<close> loop over the rows from \<open>index\<close> on.\<close>

fun scrape_rows :: "nat \<Rightarrow> string list list \<Rightarrow> PlayerData list" where
  "scrape_rows index [] = []"
| "scrape_rows index (row # rows) = scrape_row index row @ scrape_rows (Suc index) rows"

text \<open>The request rejects, or it resolves with \<^verbatim>\<open>response.data\<close>. A string is parsed by
  \<^verbatim>\<open>cheerio.load\<close>, and the parse is given by the rows of \<^verbatim>\<open>$('table tbody tr')\<close>; on any
  other value \<^verbatim>\<open>cheerio.load\<close> throws inside the \<^verbatim>\<open>try\<close>, with the message \<open>NonPage\<close>
  carries.\<close>

datatype html_data = Page "string list list" | NonPage string

datatype html_outcome = HtmlRejected string | HtmlResolved html_data

fun scrapePlayerStats_html :: "html_outcome \<Rightarrow> js_error + PlayerData list" where
  "scrapePlayerStats_html (HtmlRejected msg) = Inl (scrape_failed msg)"
| "scrapePlayerStats_html (HtmlResolved (NonPage msg)) = Inl (scrape_failed msg)"
| "scrapePlayerStats_html (HtmlResolved (Page rows)) = Inr (scrape_rows 0 rows)"

section \<open>The environment of one loop iteration\<close>

text \<open>
  The storage layer is an external service: any call to it may throw. The calls the
  loops below make are named, and the environment of an iteration says which of them
  throw during that iteration and what \<^verbatim>\<open>new Date()\<close> reads (the several reads within one
  iteration are taken to coincide). A call that throws leaves the stored data as it was.
\<close>

datatype db_call =
    PlayerFindFirst | PlayerWrite | SeasonStatsFindFirst | SeasonStatsWrite
  | PrismaPlayerUpsert | PrismaPlayerFindUnique | PrismaStatsUpsert | PrismaStatsFindFirst

type_synonym timestamp = nat

record tick =
  fails :: "db_call \<Rightarrow> bool"
  now :: timestamp

datatype db_error = DbError db_call

section \<open>Persistent store behind the Supabase service layer\<close>

text \<open>Primary keys are generated by the database (\<^verbatim>\<open>gen_random_uuid()\<close>); the model draws
  them from a counter, so that a generated key is new.\<close>

type_synonym uuid = nat

record PlayerRow =
  p_id :: uuid
  p_mlbId :: string
  p_name :: string
  p_teamAbbr :: string
  p_photoUrl :: "string option"
  p_createdAt :: timestamp
  p_updatedAt :: timestamp

record SeasonStatsRow =
  s_id :: uuid
  s_playerId :: uuid
  s_seasonYear :: int
  s_hrsTotal :: int
  s_teamAbbr :: string
  s_createdAt :: timestamp
  s_updatedAt :: timestamp

record database =
  Player :: "PlayerRow list"
  PlayerSeasonStats :: "SeasonStatsRow list"
  next_uuid :: uuid

text \<open>\<^verbatim>\<open>playerDb.findFirst({ mlbId })\<close>: the first matching row, or null.\<close>

definition player_findFirst :: "tick \<Rightarrow> string \<Rightarrow> database \<Rightarrow> db_error + PlayerRow option" where
  "player_findFirst env m db =
     (if fails env PlayerFindFirst then Inl (DbError PlayerFindFirst)
      else Inr (find (\<lambda>r. p_mlbId r = m) (Player db)))"

text \<open>\<^verbatim>\<open>playerDb.update({ id }, data)\<close>: \<open>data\<close> is the assignment of the given columns;
  \<^verbatim>\<open>.single()\<close> reports an error, which is thrown, when no row has the key.\<close>

definition player_update ::
  "tick \<Rightarrow> uuid \<Rightarrow> (PlayerRow \<Rightarrow> PlayerRow) \<Rightarrow> database \<Rightarrow> db_error + (PlayerRow \<times> database)" where
  "player_update env i data db =
     (if fails env PlayerWrite then Inl (DbError PlayerWrite)
      else (let rows = map (\<lambda>r. if p_id r = i then data r else r) (Player db)
            in case find (\<lambda>r. p_id r = i) rows of
                 None \<Rightarrow> Inl (DbError PlayerWrite)
               | Some row \<Rightarrow> Inr (row, db\<lparr>Player := rows\<rparr>)))"

text \<open>\<^verbatim>\<open>playerDb.create(data)\<close>: the row is stored under a generated key.\<close>

definition player_create ::
  "tick \<Rightarrow> PlayerRow \<Rightarrow> database \<Rightarrow> db_error + (PlayerRow \<times> database)" where
  "player_create env data db =
     (if fails env PlayerWrite then Inl (DbError PlayerWrite)
      else (let row = data\<lparr>p_id := next_uuid db\<rparr>
            in Inr (row, db\<lparr>Player := Player db @ [row], next_uuid := Suc (next_uuid db)\<rparr>)))"

definition player_upsert ::
  "tick \<Rightarrow> string \<Rightarrow> PlayerRow \<Rightarrow> (PlayerRow \<Rightarrow> PlayerRow) \<Rightarrow> database
     \<Rightarrow> db_error + (PlayerRow \<times> database)" where
  "player_upsert env m create update db =
     (case player_findFirst env m db of
        Inl e \<Rightarrow> Inl e
      | Inr (Some existing) \<Rightarrow> player_update env (p_id existing) update db
      | Inr None \<Rightarrow> player_create env create db)"

text \<open>
  Modelled from the spec: \<^verbatim>\<open>db.playerSeasonStats\<close> is called by \<^verbatim>\<open>seedPlayersToDatabase\<close>
  but the service layer under \<^verbatim>\<open>src/\<close> does not define it. The spec has one
  SeasonArchiveEntry per (player, season), "upserted during season"; the upsert below
  follows \<^verbatim>\<open>playerDb.upsert\<close>: look the key up, update the row found, else create one.
\<close>

definition seasonStats_upsert ::
  "tick \<Rightarrow> uuid \<times> int \<Rightarrow> SeasonStatsRow \<Rightarrow> (SeasonStatsRow \<Rightarrow> SeasonStatsRow) \<Rightarrow> database
     \<Rightarrow> db_error + database" where
  "seasonStats_upsert env key create update db =
     (if fails env SeasonStatsFindFirst then Inl (DbError SeasonStatsFindFirst)
      else if fails env SeasonStatsWrite then Inl (DbError SeasonStatsWrite)
      else (case find (\<lambda>r. (s_playerId r, s_seasonYear r) = key) (PlayerSeasonStats db) of
              Some existing \<Rightarrow>
                Inr (db\<lparr>PlayerSeasonStats :=
                          map (\<lambda>r. if s_id r = s_id existing then update r else r)
                              (PlayerSeasonStats db)\<rparr>)
            | None \<Rightarrow>
                Inr (db\<lparr>PlayerSeasonStats :=
                          PlayerSeasonStats db @ [create\<lparr>s_id := next_uuid db\<rparr>],
                        next_uuid := Suc (next_uuid db)\<rparr>)))"

section \<open>Identity Resolver: \<^verbatim>\<open>seedPlayersToDatabase\<close> (Supabase service layer)\<close>

record counts =
  createdCount :: nat
  updatedCount :: nat
  skippedCount :: nat
  missingPlayerCount :: nat

definition no_counts :: counts where
  "no_counts = \<lparr>createdCount = 0, updatedCount = 0, skippedCount = 0, missingPlayerCount = 0\<rparr>"

text \<open>\<^verbatim>\<open>player.photoUrl || null\<close>: an absent or empty URL is stored as null.\<close>

definition photo_or_null :: "string option \<Rightarrow> string option" where
  "photo_or_null ph = (case ph of None \<Rightarrow> None | Some u \<Rightarrow> if u = [] then None else Some u)"

text \<open>The body of the loop: the \<^verbatim>\<open>try\<close> block with both upserts, and the \<^verbatim>\<open>catch\<close>
  that counts the record as skipped.\<close>

definition seed_step :: "int \<Rightarrow> tick \<Rightarrow> PlayerData \<Rightarrow> database \<times> counts \<Rightarrow> database \<times> counts" where
  "seed_step seasonYear env player st =
     (let (db, c) = st;
          skipped = c\<lparr>skippedCount := Suc (skippedCount c)\<rparr>
      in case player_upsert env (mlbId player)
                \<lparr>p_id = 0, p_mlbId = mlbId player, p_name = name player,
                  p_teamAbbr = teamAbbr player, p_photoUrl = photo_or_null (photoUrl player),
                  p_createdAt = now env, p_updatedAt = now env\<rparr>
                (\<lambda>r. r\<lparr>p_teamAbbr := teamAbbr player, p_updatedAt := now env\<rparr>)
                db of
           Inl e \<Rightarrow> (db, skipped)
         | Inr (playerRecord, db1) \<Rightarrow>
             (case seasonStats_upsert env (p_id playerRecord, seasonYear)
                     \<lparr>s_id = 0, s_playerId = p_id playerRecord, s_seasonYear = seasonYear,
                       s_hrsTotal = homeRuns player, s_teamAbbr = teamAbbr player,
                       s_createdAt = now env, s_updatedAt = now env\<rparr>
                     (\<lambda>r. r\<lparr>s_hrsTotal := homeRuns player, s_teamAbbr := teamAbbr player,
                            s_updatedAt := now env\<rparr>)
                     db1 of
                Inl e \<Rightarrow> (db1, skipped)
              | Inr db2 \<Rightarrow> (db2, c\<lparr>createdCount := Suc (createdCount c)\<rparr>)))"

text \<open>The \<^verbatim>\<open>for (const player of players)\<close> loop; \<open>i\<close> numbers the iterations so that each
  reads its own environment.\<close>

fun seed_loop ::
  "(nat \<Rightarrow> tick) \<Rightarrow> int \<Rightarrow> nat \<Rightarrow> PlayerData list \<Rightarrow> database \<times> counts \<Rightarrow> database \<times> counts" where
  "seed_loop env seasonYear i [] st = st"
| "seed_loop env seasonYear i (player # players) st =
     seed_loop env seasonYear (Suc i) players (seed_step seasonYear (env i) player st)"

definition seedPlayersToDatabase ::
  "(nat \<Rightarrow> tick) \<Rightarrow> PlayerData list \<Rightarrow> int \<Rightarrow> database \<Rightarrow> database \<times> counts" where
  "seedPlayersToDatabase env players seasonYear db = seed_loop env seasonYear 0 players (db, no_counts)"


section \<open>Persistent store behind the Prisma client\<close>

text \<open>The Player table before the archive migration (with the season columns), and the
  PlayerStats table of dated snapshots, unique on (playerId, seasonYear, date). A date is
  the number \<open>yyyymmdd\<close>, so that the order of dates is the order of numbers.\<close>

type_synonym date = int

record LegacyPlayerRow =
  lp_id :: uuid
  lp_mlbId :: string
  lp_name :: string
  lp_teamAbbr :: string
  lp_seasonYear :: int
  lp_hrsPreviousSeason :: int
  lp_isEligible :: bool
  lp_photoUrl :: "string option"
  lp_createdAt :: timestamp
  lp_updatedAt :: timestamp

record StatsRow =
  st_id :: uuid
  st_playerId :: uuid
  st_seasonYear :: int
  st_date :: date
  st_hrsTotal :: int
  st_hrsRegularSeason :: int
  st_hrsPostseason :: int

record prisma_database =
  PPlayer :: "LegacyPlayerRow list"
  PlayerStats :: "StatsRow list"
  prisma_next_uuid :: uuid

definition stats_key :: "StatsRow \<Rightarrow> uuid \<times> int \<times> date" where
  "stats_key r = (st_playerId r, st_seasonYear r, st_date r)"

text \<open>\<^verbatim>\<open>prisma.playerStats.upsert({ where: { playerId_seasonYear_date }, update, create })\<close>:
  the row with the unique key is updated, or a row is created.\<close>

definition playerStats_upsert ::
  "uuid \<times> int \<times> date \<Rightarrow> (StatsRow \<Rightarrow> StatsRow) \<Rightarrow> StatsRow \<Rightarrow> prisma_database \<Rightarrow> prisma_database" where
  "playerStats_upsert key update create db =
     (if key \<in> set (map stats_key (PlayerStats db))
      then db\<lparr>PlayerStats := map (\<lambda>r. if stats_key r = key then update r else r) (PlayerStats db)\<rparr>
      else db\<lparr>PlayerStats := PlayerStats db @ [create\<lparr>st_id := prisma_next_uuid db\<rparr>],
              prisma_next_uuid := Suc (prisma_next_uuid db)\<rparr>)"

text \<open>\<^verbatim>\<open>prisma.player.upsert({ where: { mlbId }, update, create })\<close>; the upserted row is
  returned.\<close>

definition legacy_player_upsert ::
  "string \<Rightarrow> (LegacyPlayerRow \<Rightarrow> LegacyPlayerRow) \<Rightarrow> LegacyPlayerRow \<Rightarrow> prisma_database
     \<Rightarrow> LegacyPlayerRow \<times> prisma_database" where
  "legacy_player_upsert m update create db =
     (case find (\<lambda>r. lp_mlbId r = m) (PPlayer db) of
        Some existing \<Rightarrow>
          (update existing,
           db\<lparr>PPlayer := map (\<lambda>r. if lp_mlbId r = m then update r else r) (PPlayer db)\<rparr>)
      | None \<Rightarrow>
          (let row = create\<lparr>lp_id := prisma_next_uuid db\<rparr>
           in (row, db\<lparr>PPlayer := PPlayer db @ [row],
                        prisma_next_uuid := Suc (prisma_next_uuid db)\<rparr>)))"

section \<open>Identity Resolver: \<^verbatim>\<open>seedPlayersToDatabase\<close> (Prisma variant)\<close>

text \<open>In a Prisma \<^verbatim>\<open>update\<close>, a column given as \<^verbatim>\<open>undefined\<close> is left as it is.\<close>

definition set_if_defined :: "string option \<Rightarrow> string option \<Rightarrow> string option" where
  "set_if_defined new old = (case new of None \<Rightarrow> old | Some u \<Rightarrow> Some u)"

definition legacy_seed_step ::
  "int \<Rightarrow> tick \<Rightarrow> PlayerData \<Rightarrow> prisma_database \<times> counts \<Rightarrow> prisma_database \<times> counts" where
  "legacy_seed_step seasonYear env player st =
     (let (db, c) = st;
          skipped = c\<lparr>skippedCount := Suc (skippedCount c)\<rparr>
      in if fails env PrismaPlayerUpsert then (db, skipped)
         else (let (result, db1) =
                     legacy_player_upsert (mlbId player)
                       (\<lambda>r. r\<lparr>lp_name := name player, lp_teamAbbr := teamAbbr player,
                              lp_hrsPreviousSeason := homeRuns player,
                              lp_isEligible := (homeRuns player \<ge> 10),
                              lp_photoUrl := set_if_defined (photoUrl player) (lp_photoUrl r),
                              lp_updatedAt := now env\<rparr>)
                       \<lparr>lp_id = 0, lp_mlbId = mlbId player, lp_name = name player,
                         lp_teamAbbr = teamAbbr player, lp_seasonYear = seasonYear,
                         lp_hrsPreviousSeason = homeRuns player,
                         lp_isEligible = (homeRuns player \<ge> 10),
                         lp_photoUrl = photoUrl player,
                         lp_createdAt = now env, lp_updatedAt = now env\<rparr>
                       db
               in if fails env PrismaPlayerFindUnique then (db1, skipped)
                  else (case find (\<lambda>r. lp_mlbId r = mlbId player) (PPlayer db1) of
                          Some existingPlayer \<Rightarrow>
                            if lp_createdAt existingPlayer = lp_createdAt result
                            then (db1, c\<lparr>createdCount := Suc (createdCount c)\<rparr>)
                            else (db1, c\<lparr>updatedCount := Suc (updatedCount c)\<rparr>)
                        | None \<Rightarrow> (db1, c\<lparr>updatedCount := Suc (updatedCount c)\<rparr>))))"




section \<open>Stats Archive: \<^verbatim>\<open>import2025Season\<close>\<close>

record CSVPlayer =
  c_name :: string
  c_team :: string
  c_homeRuns :: int

text \<open>One line of \<^verbatim>\<open>parseCSV\<close>: the destructured pieces beyond the end of the split are
  \<^verbatim>\<open>undefined\<close>, which is falsy as a team and NaN as a number.\<close>

definition parseCSV_line :: "string \<Rightarrow> CSVPlayer list" where
  "parseCSV_line raw =
     (let line = trim raw in
      if line = [] then []
      else (let parts = split_on comma line;
                nm = (if 0 < length parts then parts ! 0 else []);
                team = (if 1 < length parts then parts ! 1 else []);
                homeRuns = (if 2 < length parts then parseInt (parts ! 2) else None)
            in case homeRuns of
                 None \<Rightarrow> []
               | Some h \<Rightarrow>
                   if nm \<noteq> [] \<and> team \<noteq> [] \<and> h \<ge> 10
                   then [\<lparr>c_name = trim nm, c_team = trim team, c_homeRuns = h\<rparr>]
                   else []))"

definition parseCSV :: "string \<Rightarrow> CSVPlayer list" where
  "parseCSV csvContent = concat (map parseCSV_line (drop 1 (split_on newline (trim csvContent))))"

text \<open>\<^verbatim>\<open>.replace(/--+/g, '-')\<close>: a run of two or more hyphens becomes one.\<close>

function collapse_hyphens :: "string \<Rightarrow> string" where
  "collapse_hyphens [] = []"
| "collapse_hyphens (c # cs) =
     (if c = hyphen then hyphen # collapse_hyphens (dropWhile (\<lambda>d. d = hyphen) cs)
      else c # collapse_hyphens cs)"
  by pat_completeness auto
termination
  by (relation "measure length") (auto simp: length_dropWhile_le less_Suc_eq_le)

definition csv_mlbId :: "string \<Rightarrow> string" where
  "csv_mlbId nm = collapse_hyphens (filter is_slug_char (replace_spaces (map to_lower nm)))"

text \<open>\<^verbatim>\<open>new Date('2025-09-28')\<close>, the end of the 2025 regular season.\<close>

definition seasonEndDate :: date where
  "seasonEndDate = 20250928"

text \<open>The body of the loop: look the player up by the generated id, skip a player that
  is not in the Player table, upsert the snapshot of the season's last day, and look the
  snapshot up again for the counters.\<close>

definition import_step :: "tick \<Rightarrow> CSVPlayer \<Rightarrow> prisma_database \<times> counts \<Rightarrow> prisma_database \<times> counts" where
  "import_step env player st =
     (let (db, c) = st;
          skipped = c\<lparr>skippedCount := Suc (skippedCount c)\<rparr>;
          mlbId = csv_mlbId (c_name player)
      in if fails env PrismaPlayerFindUnique then (db, skipped)
         else (case find (\<lambda>r. lp_mlbId r = mlbId) (PPlayer db) of
                 None \<Rightarrow> (db, c\<lparr>missingPlayerCount := Suc (missingPlayerCount c)\<rparr>)
               | Some existingPlayer \<Rightarrow>
                   if fails env PrismaStatsUpsert then (db, skipped)
                   else (let db1 =
                               playerStats_upsert (lp_id existingPlayer, 2025, seasonEndDate)
                                 (\<lambda>r. r\<lparr>st_hrsTotal := c_homeRuns player,
                                        st_hrsRegularSeason := c_homeRuns player,
                                        st_hrsPostseason := 0\<rparr>)
                                 \<lparr>st_id = 0, st_playerId = lp_id existingPlayer,
                                   st_seasonYear = 2025, st_date = seasonEndDate,
                                   st_hrsTotal = c_homeRuns player,
                                   st_hrsRegularSeason = c_homeRuns player,
                                   st_hrsPostseason = 0\<rparr>
                                 db
                         in if fails env PrismaStatsFindFirst then (db1, skipped)
                            else (case find (\<lambda>r. stats_key r = (lp_id existingPlayer, 2025, seasonEndDate))
                                            (PlayerStats db1) of
                                    Some wasUpdate \<Rightarrow> (db1, c\<lparr>updatedCount := Suc (updatedCount c)\<rparr>)
                                  | None \<Rightarrow> (db1, c\<lparr>createdCount := Suc (createdCount c)\<rparr>)))))"

fun import_loop ::
  "(nat \<Rightarrow> tick) \<Rightarrow> nat \<Rightarrow> CSVPlayer list \<Rightarrow> prisma_database \<times> counts \<Rightarrow> prisma_database \<times> counts" where
  "import_loop env i [] st = st"
| "import_loop env i (player # players) st =
     import_loop env (Suc i) players (import_step (env i) player st)"

text \<open>\<^verbatim>\<open>import2025Season\<close> from the content of the CSV file on.\<close>

definition import2025Season :: "(nat \<Rightarrow> tick) \<Rightarrow> string \<Rightarrow> prisma_database \<Rightarrow> prisma_database \<times> counts" where
  "import2025Season env csvContent db = import_loop env 0 (parseCSV csvContent) (db, no_counts)"

text \<open>The snapshots of one player's season, and the property that their \<open>hrsTotal\<close>
  does not decrease along the dates.\<close>

definition season_snapshots :: "uuid \<Rightarrow> int \<Rightarrow> prisma_database \<Rightarrow> StatsRow list" where
  "season_snapshots pid yr db =
     filter (\<lambda>r. st_playerId r = pid \<and> st_seasonYear r = yr) (PlayerStats db)"

definition monotone_by_date :: "StatsRow list \<Rightarrow> bool" where
  "monotone_by_date rows =
     list_all (\<lambda>a. list_all (\<lambda>b. st_date a < st_date b \<longrightarrow> st_hrsTotal a \<le> st_hrsTotal b) rows) rows"

section \<open>Scoring Engine and Leaderboard Builder\<close>

text \<open>
  Neither component is among the sources (only the Leaderboard table and the project
  notes are), so both are modelled from the spec. A roster is given in position order,
  each player with the total of the scoring period.
\<close>

record ScoreRecord =
  bestSevenTotal :: int
  excludedPlayerId :: "uuid option"

text \<open>Modelled from the spec: the Scoring Engine's sort, "Sort the 8 per-player totals
  descending", with "ties broken by roster position order": a stable sort, under which
  equal totals keep their roster order. The Leaderboard Builder's "Sort descending by
  totalHrs" is the same sort.\<close>

definition sort_desc :: "(uuid \<times> int) list \<Rightarrow> (uuid \<times> int) list" where
  "sort_desc xs = sort_key (\<lambda>(k, hrs). - hrs) xs"

text \<open>Modelled from the spec: the Scoring Engine, "Sort the 8 per-player totals descending;
  sum the top 7; record which player was excluded (lowest total; ties broken by roster
  position order, lowest position wins inclusion)".\<close>

definition scoreRoster :: "(uuid \<times> int) list \<Rightarrow> ScoreRecord" where
  "scoreRoster totals =
     (let sorted = sort_desc totals
      in \<lparr>bestSevenTotal = sum_list (map snd (take 7 sorted)),
          excludedPlayerId = (if 7 < length sorted then Some (fst (sorted ! 7)) else None)\<rparr>)"

record LeaderboardEntry =
  rosterId :: uuid
  rank :: nat
  totalHrs :: int

text \<open>Modelled from the spec: the Leaderboard Builder's ranking, "assign ranks with standard
  competition ranking (ties share the same rank; the next distinct value's rank equals
  the count of entries strictly ahead of it, plus 1)", as one pass over the sorted list:
  an entry with the total of its predecessor takes the predecessor's rank, any other
  entry takes its position, counted from 1.\<close>

fun assign_ranks :: "nat \<Rightarrow> (int \<times> nat) option \<Rightarrow> (uuid \<times> int) list \<Rightarrow> LeaderboardEntry list" where
  "assign_ranks i prev [] = []"
| "assign_ranks i prev ((rid, hrs) # rest) =
     (let r = (case prev of
                 None \<Rightarrow> Suc i
               | Some (prevHrs, prevRank) \<Rightarrow> if prevHrs = hrs then prevRank else Suc i)
      in \<lparr>rosterId = rid, rank = r, totalHrs = hrs\<rparr> # assign_ranks (Suc i) (Some (hrs, r)) rest)"

text \<open>Modelled from the spec: the Leaderboard Builder, "Sort descending by totalHrs; assign
  ranks", on the collected pairs of roster and total.\<close>

definition buildLeaderboard :: "(uuid \<times> int) list \<Rightarrow> LeaderboardEntry list" where
  "buildLeaderboard scores = assign_ranks 0 None (sort_desc scores)"

section \<open>Concrete inputs and auxiliary notions for the properties\<close>

text \<open>The id a data line contributes to the output of the CSV scraper, if any.\<close>

definition eligible_id :: "string \<Rightarrow> string option" where
  "eligible_id line =
     (case line_match line of
        None \<Rightarrow> None
      | Some (fullName, playerId, year, homeRunsStr) \<Rightarrow>
          if parse_digits homeRunsStr \<ge> 10 then Some (''mlb-'' @ playerId) else None)"

text \<open>A data line of the CSV export.\<close>

definition csv_line :: "string \<Rightarrow> string \<Rightarrow> string \<Rightarrow> string \<Rightarrow> string" where
  "csv_line fullName playerId year hr =
     [dquote] @ fullName @ [dquote] @ '','' @ playerId @ '','' @ year @ '','' @ hr"

text \<open>A payload with a line that does not match the pattern and a player below 10 home
  runs, a payload with two lines for one player, and a page that is no CSV at all.\<close>

definition sample_csv :: string where
  "sample_csv = ''last_name, first_name,player_id,year,home_run'' @ [newline]
     @ csv_line ''Judge, Aaron'' ''592450'' ''2025'' ''58'' @ [newline]
     @ ''Service temporarily unavailable'' @ [newline]
     @ csv_line ''Soto, Juan'' ''665742'' ''2025'' ''9'' @ [newline]"

definition duplicate_csv :: string where
  "duplicate_csv = ''last_name, first_name,player_id,year,home_run'' @ [newline]
     @ csv_line ''Judge, Aaron'' ''592450'' ''2025'' ''57'' @ [newline]
     @ csv_line ''Judge, Aaron'' ''592450'' ''2025'' ''58'' @ [newline]"


text \<open>The records the scrapers make of the lines above.\<close>

definition judge :: "int \<Rightarrow> PlayerData" where
  "judge h = \<lparr>name = ''Aaron Judge'', mlbId = ''mlb-592450'', teamAbbr = ''UNK'', homeRuns = h, photoUrl = None\<rparr>"

definition html_judge :: PlayerData where
  "html_judge = \<lparr>name = ''Aaron Judge'', mlbId = ''aaron-judge'', teamAbbr = ''NYY'',
                  homeRuns = 58, photoUrl = None\<rparr>"

definition sample_rows :: "string list list" where
  "sample_rows = [[''Aaron Judge'', ''NYY, AL'', ''58''], [''Juan Soto'', ''NYM, NL'', ''9'']]"





text \<open>An iteration in which no storage call throws, at time \<open>t\<close>.\<close>

definition ok_tick :: "timestamp \<Rightarrow> tick" where
  "ok_tick t = \<lparr>fails = (\<lambda>c. False), now = t\<rparr>"

definition empty_db :: database where
  "empty_db = \<lparr>Player = [], PlayerSeasonStats = [], next_uuid = 1\<rparr>"

text \<open>The columns the import writes into a snapshot.\<close>

definition end_of_season_values :: "int \<Rightarrow> StatsRow \<Rightarrow> StatsRow" where
  "end_of_season_values h r = r\<lparr>st_hrsTotal := h, st_hrsRegularSeason := h, st_hrsPostseason := 0\<rparr>"

text \<open>An archive holding one player and the snapshot of September 1st, and the same
  archive with a snapshot of the season's last day as well.\<close>

definition judge_row :: LegacyPlayerRow where
  "judge_row = \<lparr>lp_id = 1, lp_mlbId = ''aaron-judge'', lp_name = ''Aaron Judge'',
                 lp_teamAbbr = ''NYY'', lp_seasonYear = 2025, lp_hrsPreviousSeason = 58,
                 lp_isEligible = True, lp_photoUrl = None, lp_createdAt = 0, lp_updatedAt = 0\<rparr>"

definition snapshot :: "uuid \<Rightarrow> date \<Rightarrow> int \<Rightarrow> StatsRow" where
  "snapshot i d h = \<lparr>st_id = i, st_playerId = 1, st_seasonYear = 2025, st_date = d,
                      st_hrsTotal = h, st_hrsRegularSeason = h, st_hrsPostseason = 0\<rparr>"

definition archive_sep1 :: prisma_database where
  "archive_sep1 = \<lparr>PPlayer = [judge_row], PlayerStats = [snapshot 10 20250901 50],
                    prisma_next_uuid = 11\<rparr>"

definition archive_sep28 :: prisma_database where
  "archive_sep28 = \<lparr>PPlayer = [judge_row],
                     PlayerStats = [snapshot 10 20250901 50, snapshot 11 20250928 55],
                     prisma_next_uuid = 12\<rparr>"

definition csv_judge :: "int \<Rightarrow> CSVPlayer" where
  "csv_judge h = \<lparr>c_name = ''Aaron Judge'', c_team = ''NYY'', c_homeRuns = h\<rparr>"

definition season_csv_40 :: string where
  "season_csv_40 = ''name,team,homeRuns'' @ [newline] @ ''Aaron Judge,NYY,40'' @ [newline]"

text \<open>The roster of the spec's end-to-end scenario, and a roster whose lowest total is
  held by two players.\<close>

definition spec_roster :: "(uuid \<times> int) list" where
  "spec_roster = [(10, 30), (11, 25), (12, 20), (13, 18), (14, 15), (15, 10), (16, 5), (17, 0)]"

definition tied_roster :: "(uuid \<times> int) list" where
  "tied_roster = [(10, 3), (11, 25), (12, 3), (13, 18), (14, 15), (15, 10), (16, 5), (17, 7)]"

definition sample_scores :: "(uuid \<times> int) list" where
  "sample_scores = [(1, 40), (2, 50), (3, 30), (4, 50)]"

text \<open>The constraints of the Player table: the primary key and the external id are each
  unique, and the key generator is ahead of every stored key.\<close>

definition wf_db :: "database \<Rightarrow> bool" where
  "wf_db db = (distinct (map p_id (Player db)) \<and> distinct (map p_mlbId (Player db)) \<and>
               list_all (\<lambda>r. p_id r < next_uuid db) (Player db))"

text \<open>An iteration of \<^verbatim>\<open>seedPlayersToDatabase\<close> in which the player upsert throws.\<close>

definition player_faulty :: "tick \<Rightarrow> bool" where
  "player_faulty env = (fails env PlayerFindFirst \<or> fails env PlayerWrite)"

text \<open>A Player row without the time of its last update.\<close>

definition without_updatedAt :: "PlayerRow \<Rightarrow> PlayerRow" where
  "without_updatedAt r = r\<lparr>p_updatedAt := 0\<rparr>"

text \<open>What the resolver writes into the row of a known player, and the row it creates for
  an unseen one.\<close>

definition traded :: "tick \<Rightarrow> PlayerData \<Rightarrow> PlayerRow \<Rightarrow> PlayerRow" where
  "traded env player r = r\<lparr>p_teamAbbr := teamAbbr player, p_updatedAt := now env\<rparr>"

definition new_player :: "tick \<Rightarrow> PlayerData \<Rightarrow> uuid \<Rightarrow> PlayerRow" where
  "new_player env player i =
     \<lparr>p_id = i, p_mlbId = mlbId player, p_name = name player, p_teamAbbr = teamAbbr player,
       p_photoUrl = photo_or_null (photoUrl player), p_createdAt = now env, p_updatedAt = now env\<rparr>"

text \<open>An iteration of \<^verbatim>\<open>seedPlayersToDatabase\<close> in which one of its storage calls throws.\<close>

definition seed_faulty :: "tick \<Rightarrow> bool" where
  "seed_faulty env = (fails env PlayerFindFirst \<or> fails env PlayerWrite \<or>
                      fails env SeasonStatsFindFirst \<or> fails env SeasonStatsWrite)"

text \<open>The Player table after the player upsert of one iteration.\<close>

definition upsert_rows :: "tick \<Rightarrow> PlayerData \<Rightarrow> uuid \<Rightarrow> PlayerRow list \<Rightarrow> PlayerRow list" where
  "upsert_rows env player i rows =
     (if mlbId player \<in> set (map p_mlbId rows)
      then map (\<lambda>r. if p_mlbId r = mlbId player then traded env player r else r) rows
      else rows @ [new_player env player i])"

text \<open>Two more fetched records.\<close>

definition soto :: PlayerData where
  "soto = \<lparr>name = ''Juan Soto'', mlbId = ''mlb-665742'', teamAbbr = ''UNK'', homeRuns = 41,
            photoUrl = None\<rparr>"

definition ohtani :: PlayerData where
  "ohtani = \<lparr>name = ''Shohei Ohtani'', mlbId = ''mlb-660271'', teamAbbr = ''UNK'', homeRuns = 54,
              photoUrl = None\<rparr>"

text \<open>The storage rejects the player write of the second iteration.\<close>

definition flaky_env :: "nat \<Rightarrow> tick" where
  "flaky_env i = (if i = 1 then \<lparr>fails = (\<lambda>call. call = PlayerWrite), now = 100\<rparr> else ok_tick 100)"

text \<open>An iteration in which the storage rejects the player write, and an iteration
  against the service layer of \<^verbatim>\<open>db.ts\<close>, which has no \<^verbatim>\<open>playerSeasonStats\<close>: every call on
  it throws.\<close>

definition write_down :: "timestamp \<Rightarrow> tick" where
  "write_down t = \<lparr>fails = (\<lambda>call. call = PlayerWrite), now = t\<rparr>"

definition stats_down :: "timestamp \<Rightarrow> tick" where
  "stats_down t = \<lparr>fails = (\<lambda>call. call = SeasonStatsFindFirst \<or> call = SeasonStatsWrite), now = t\<rparr>"


text \<open>What the Prisma variant writes into the row of a known player, and the row it
  creates for an unseen one.\<close>

definition legacy_corrected :: "tick \<Rightarrow> PlayerData \<Rightarrow> LegacyPlayerRow \<Rightarrow> LegacyPlayerRow" where
  "legacy_corrected env player r =
     r\<lparr>lp_name := name player, lp_teamAbbr := teamAbbr player,
       lp_hrsPreviousSeason := homeRuns player, lp_isEligible := (homeRuns player \<ge> 10),
       lp_photoUrl := set_if_defined (photoUrl player) (lp_photoUrl r), lp_updatedAt := now env\<rparr>"

definition legacy_new_player :: "tick \<Rightarrow> int \<Rightarrow> PlayerData \<Rightarrow> uuid \<Rightarrow> LegacyPlayerRow" where
  "legacy_new_player env seasonYear player i =
     \<lparr>lp_id = i, lp_mlbId = mlbId player, lp_name = name player, lp_teamAbbr = teamAbbr player,
       lp_seasonYear = seasonYear, lp_hrsPreviousSeason = homeRuns player,
       lp_isEligible = (homeRuns player \<ge> 10), lp_photoUrl = photoUrl player,
       lp_createdAt = now env, lp_updatedAt = now env\<rparr>"

text \<open>A database that knows one player, and a fetched record for the same external id
  with another spelling of the name, another team and a photo.\<close>

definition judge_player_row :: PlayerRow where
  "judge_player_row = \<lparr>p_id = 1, p_mlbId = ''mlb-592450'', p_name = ''Aaron Judge'',
                        p_teamAbbr = ''NYY'', p_photoUrl = None, p_createdAt = 5, p_updatedAt = 5\<rparr>"

definition judge_db :: database where
  "judge_db = \<lparr>Player = [judge_player_row], PlayerSeasonStats = [], next_uuid = 2\<rparr>"

definition renamed_judge :: PlayerData where
  "renamed_judge = \<lparr>name = ''Aaron J. Judge'', mlbId = ''mlb-592450'', teamAbbr = ''LAD'',
                     homeRuns = 58, photoUrl = Some ''judge.png''\<rparr>"

definition judge_legacy_row :: LegacyPlayerRow where
  "judge_legacy_row = \<lparr>lp_id = 1, lp_mlbId = ''mlb-592450'', lp_name = ''Aaron Judge'',
                        lp_teamAbbr = ''NYY'', lp_seasonYear = 2025, lp_hrsPreviousSeason = 58,
                        lp_isEligible = True, lp_photoUrl = None, lp_createdAt = 5,
                        lp_updatedAt = 5\<rparr>"

definition judge_prisma_db :: prisma_database where
  "judge_prisma_db = \<lparr>PPlayer = [judge_legacy_row], PlayerStats = [], prisma_next_uuid = 2\<rparr>"

text \<open>The team of the last record of a list that carries the external id \<open>m\<close>.\<close>

fun last_team :: "PlayerData list \<Rightarrow> string \<Rightarrow> string option" where
  "last_team [] m = None"
| "last_team (p # ps) m =
     (case last_team ps m of
        Some t \<Rightarrow> Some t
      | None \<Rightarrow> if mlbId p = m then Some (teamAbbr p) else None)"

text \<open>A fetched list in which one external id occurs twice, with different teams.\<close>

definition fetched_twice :: "PlayerData list" where
  "fetched_twice = [judge 58, renamed_judge, soto]"

definition first_run :: database where
  "first_run = fst (seedPlayersToDatabase (\<lambda>i. ok_tick 100) fetched_twice 2025 empty_db)"

definition second_run :: database where
  "second_run = fst (seedPlayersToDatabase (\<lambda>i. ok_tick 200) fetched_twice 2025 first_run)"

text \<open>The same two runs against the service layer of \<^verbatim>\<open>db.ts\<close>.\<close>

definition src_first_run :: database where
  "src_first_run = fst (seedPlayersToDatabase (\<lambda>i. stats_down 100) fetched_twice 2025 empty_db)"

definition src_second_run :: database where
  "src_second_run = fst (seedPlayersToDatabase (\<lambda>i. stats_down 200) fetched_twice 2025 src_first_run)"

text \<open>A first run whose player write is rejected, and a second run in which the write of
  the second record is rejected.\<close>

definition rejected_first_run :: database where
  "rejected_first_run = fst (seedPlayersToDatabase (\<lambda>i. write_down 100) [judge 58] 2025 empty_db)"

definition rejected_second_run :: database where
  "rejected_second_run =
     fst (seedPlayersToDatabase flaky_env [judge 58, renamed_judge] 2025
            (fst (seedPlayersToDatabase (\<lambda>i. ok_tick 100) [judge 58, renamed_judge] 2025 empty_db)))"

section \<open>Properties of the Source Fetcher\<close>

lemma scrape_line_eligible: "p \<in> set (scrape_line line) \<Longrightarrow> 10 \<le> homeRuns p"
  by (auto simp: scrape_line_def Let_def split: option.splits if_splits)

lemma scrape_csv_eligible: "p \<in> set (scrape_csv data) \<Longrightarrow> 10 \<le> homeRuns p"
  by (auto simp: scrape_csv_def dest: scrape_line_eligible)

lemma scrape_row_eligible: "p \<in> set (scrape_row i row) \<Longrightarrow> 10 \<le> homeRuns p"
  by (auto simp: scrape_row_def Let_def split: option.splits if_splits)

lemma scrape_rows_eligible: "p \<in> set (scrape_rows i rows) \<Longrightarrow> 10 \<le> homeRuns p"
  by (induction rows arbitrary: i) (auto dest: scrape_row_eligible)

lemma sample_csv_eval: "scrapePlayerStats (Resolved (Text sample_csv)) = Inr [judge 58]"
  by code_simp


lemma soto_match: "line_match (csv_line ''Soto, Juan'' ''665742'' ''2025'' ''9'') = Some (''Soto, Juan'', ''665742'', ''2025'', ''9'')"
  by code_simp

lemma dup_eval: "scrapePlayerStats (Resolved (Text duplicate_csv)) = Inr [judge 57, judge 58]"
  by code_simp

text \<open>
  C10. Every record returned by \<^verbatim>\<open>scrapePlayerStats\<close>, in the CSV variant and in the HTML
  variant, has at least 10 home runs; a line (or table row) that parses to fewer than
  10 home runs contributes no record, so the output is not the full upstream listing.
\<close>

theorem scrapePlayerStats_min_ten_home_runs:
  "(scrapePlayerStats outcome = Inr players \<longrightarrow> (\<forall>p \<in> set players. 10 \<le> homeRuns p)) \<and>
   (scrapePlayerStats_html page = Inr players' \<longrightarrow> (\<forall>p \<in> set players'. 10 \<le> homeRuns p)) \<and>
   (line_match line = Some (fullName, playerId, year, homeRunsStr) \<and> parse_digits homeRunsStr < 10
      \<longrightarrow> scrape_line line = []) \<and>
   (parseInt (td_last_text row) = Some h \<and> h < 10 \<longrightarrow> scrape_row i row = [])"
proof (intro conjI impI)
  assume "scrapePlayerStats outcome = Inr players"
  then show "\<forall>p \<in> set players. 10 \<le> homeRuns p"
    by (cases outcome rule: scrapePlayerStats.cases) (auto dest: scrape_csv_eligible)
next
  assume "scrapePlayerStats_html page = Inr players'"
  then show "\<forall>p \<in> set players'. 10 \<le> homeRuns p"
    by (cases page rule: scrapePlayerStats_html.cases) (auto dest: scrape_rows_eligible)
next
  assume "line_match line = Some (fullName, playerId, year, homeRunsStr) \<and> parse_digits homeRunsStr < 10"
  then show "scrape_line line = []"
    by (simp add: scrape_line_def)
next
  assume "parseInt (td_last_text row) = Some h \<and> h < 10"
  then show "scrape_row i row = []"
    by (simp add: scrape_row_def Let_def)
qed


lemma sample_rows_eval:
  "scrapePlayerStats_html (HtmlResolved (Page sample_rows)) = Inr [html_judge]"
  by code_simp

lemma soto_row_eval: "parseInt (td_last_text [''Juan Soto'', ''NYM, NL'', ''9'']) = Some 9"
  by code_simp

lemma parse_nine: "parse_digits ''9'' < 10"
  by code_simp

text \<open>An instance: of a payload (and a page) listing a player with 58 and one with 9 home
  runs, the first is returned and the second is not.\<close>

theorem scrapePlayerStats_min_ten_home_runs_witness:
  "scrapePlayerStats (Resolved (Text sample_csv)) = Inr [judge 58] \<and>
   10 \<le> homeRuns (judge 58) \<and>
   line_match (csv_line ''Soto, Juan'' ''665742'' ''2025'' ''9'') = Some (''Soto, Juan'', ''665742'', ''2025'', ''9'') \<and>
   parse_digits ''9'' < 10 \<and>
   scrape_line (csv_line ''Soto, Juan'' ''665742'' ''2025'' ''9'') = [] \<and>
   scrapePlayerStats_html (HtmlResolved (Page sample_rows)) = Inr [html_judge] \<and>
   10 \<le> homeRuns html_judge \<and>
   parseInt (td_last_text [''Juan Soto'', ''NYM, NL'', ''9'']) = Some 9 \<and>
   scrape_row 1 [''Juan Soto'', ''NYM, NL'', ''9''] = []"
  using scrapePlayerStats_min_ten_home_runs
          [where outcome = "Resolved (Text sample_csv)" and players = "[judge 58]"
             and page = "HtmlResolved (Page sample_rows)" and players' = "[html_judge]"
             and line = "csv_line ''Soto, Juan'' ''665742'' ''2025'' ''9''"
             and fullName = "''Soto, Juan''" and playerId = "''665742''" and year = "''2025''"
             and homeRunsStr = "''9''"
             and row = "[''Juan Soto'', ''NYM, NL'', ''9'']" and h = 9 and i = 1]
        sample_csv_eval sample_rows_eval soto_match soto_row_eval parse_nine
  by simp

lemma mlbId_scrape_line:
  "map mlbId (scrape_line line) = (case eligible_id line of None \<Rightarrow> [] | Some i \<Rightarrow> [i])"
  by (simp add: scrape_line_def eligible_id_def Let_def split: option.splits)

lemma map_filter_concat:
  "List.map_filter f xs = concat (map (\<lambda>x. case f x of None \<Rightarrow> [] | Some y \<Rightarrow> [y]) xs)"
  by (induction xs) (simp_all split: option.splits)

lemma mlbId_scrape_lines:
  "map mlbId (concat (map scrape_line ls)) = List.map_filter eligible_id ls"
  by (simp add: map_filter_concat map_concat mlbId_scrape_line comp_def)

lemma count_map_filter:
  "length (filter (\<lambda>y. y = i) (List.map_filter f xs)) = length (filter (\<lambda>x. f x = Some i) xs)"
  by (induction xs) (auto split: option.splits)

text \<open>
  C6 (as amended). The scraper does not deduplicate: its output holds one record for
  every data line that matches the pattern with at least 10 home runs, in the order of
  the lines, so the number of records with a given id is the number of such lines.
\<close>

theorem scrapePlayerStats_one_record_per_eligible_line:
  "scrapePlayerStats (Resolved (Text data)) = Inr (scrape_csv data) \<and>
   map mlbId (scrape_csv data) = List.map_filter eligible_id (drop 1 (csvLines_of data)) \<and>
   length (filter (\<lambda>p. mlbId p = i) (scrape_csv data)) =
     length (filter (\<lambda>l. eligible_id l = Some i) (drop 1 (csvLines_of data)))"
proof -
  have ids: "map mlbId (scrape_csv data) = List.map_filter eligible_id (drop 1 (csvLines_of data))"
    by (simp only: scrape_csv_def mlbId_scrape_lines)
  have "length (filter (\<lambda>p. mlbId p = i) (scrape_csv data)) =
        length (filter (\<lambda>y. y = i) (map mlbId (scrape_csv data)))"
    by (simp add: filter_map comp_def)
  then show ?thesis
    using ids by (simp add: count_map_filter)
qed

text \<open>An instance: two lines for one player id give two records with that id.\<close>

theorem scrapePlayerStats_one_record_per_eligible_line_witness:
  "scrapePlayerStats (Resolved (Text duplicate_csv)) = Inr [judge 57, judge 58] \<and>
   map mlbId [judge 57, judge 58] = [''mlb-592450'', ''mlb-592450''] \<and>
   length (filter (\<lambda>l. eligible_id l = Some ''mlb-592450'') (drop 1 (csvLines_of duplicate_csv))) = 2"
  using scrapePlayerStats_one_record_per_eligible_line [of duplicate_csv "''mlb-592450''"] dup_eval
  by (simp add: judge_def)

text \<open>C6 as stated fails: two eligible lines for one player id are both returned, the
  earlier one first, so two records of the output share an id.\<close>

theorem scrapePlayerStats_dedup_counterexample:
  "scrapePlayerStats (Resolved (Text duplicate_csv)) = Inr [judge 57, judge 58] \<and>
   mlbId (judge 57) = mlbId (judge 58) \<and>
   \<not> distinct (map mlbId [judge 57, judge 58])"
  using dup_eval by (simp add: judge_def)




















section \<open>Properties of the Stats Archive\<close>

lemma filter_map_frame:
  "(\<And>x. P (f x) = P x) \<Longrightarrow> (\<And>x. P x \<Longrightarrow> f x = x) \<Longrightarrow> filter P (map f xs) = filter P xs"
  by (induction xs) auto

lemma upsert_other_keys:
  assumes "stats_key create = key" and "\<And>r. stats_key (update r) = stats_key r"
  shows "filter (\<lambda>r. stats_key r \<noteq> key) (PlayerStats (playerStats_upsert key update create db))
     = filter (\<lambda>r. stats_key r \<noteq> key) (PlayerStats db)"
proof (cases "key \<in> set (map stats_key (PlayerStats db))")
  case True
  have "filter (\<lambda>r. stats_key r \<noteq> key) (map (\<lambda>r. if stats_key r = key then update r else r) (PlayerStats db))
        = filter (\<lambda>r. stats_key r \<noteq> key) (PlayerStats db)"
    by (rule filter_map_frame) (auto simp: assms(2))
  with True show ?thesis by (simp add: playerStats_upsert_def)
next
  case False
  have "stats_key (create\<lparr>st_id := prisma_next_uuid db\<rparr>) = key"
    using assms(1) by (simp add: stats_key_def)
  with False show ?thesis by (simp add: playerStats_upsert_def)
qed

lemma upsert_other_dates:
  assumes "stats_key create = (p, y, d)" and "\<And>r. stats_key (update r) = stats_key r"
  shows "filter (\<lambda>r. st_date r \<noteq> d) (PlayerStats (playerStats_upsert (p, y, d) update create db))
     = filter (\<lambda>r. st_date r \<noteq> d) (PlayerStats db)"
proof -
  have "filter (\<lambda>r. st_date r \<noteq> d) (filter (\<lambda>r. stats_key r \<noteq> (p, y, d)) (PlayerStats (playerStats_upsert (p, y, d) update create db)))
     = filter (\<lambda>r. st_date r \<noteq> d) (filter (\<lambda>r. stats_key r \<noteq> (p, y, d)) (PlayerStats db))"
    using upsert_other_keys [OF assms, of db] by simp
  moreover have "\<And>r. (stats_key r \<noteq> (p, y, d) \<and> st_date r \<noteq> d) = (st_date r \<noteq> d)"
    by (auto simp: stats_key_def)
  ultimately show ?thesis by simp
qed

lemma import_step_other_dates:
  "filter (\<lambda>r. st_date r \<noteq> seasonEndDate) (PlayerStats (fst (import_step env player st)))
     = filter (\<lambda>r. st_date r \<noteq> seasonEndDate) (PlayerStats (fst st))"
  by (cases st) (auto simp: import_step_def Let_def upsert_other_dates stats_key_def split: option.splits)

lemma import_loop_other_dates:
  "filter (\<lambda>r. st_date r \<noteq> seasonEndDate) (PlayerStats (fst (import_loop env i players st)))
     = filter (\<lambda>r. st_date r \<noteq> seasonEndDate) (PlayerStats (fst st))"
  by (induction players arbitrary: i st) (simp_all add: import_step_other_dates)

lemma import_step_writes:
  assumes "find (\<lambda>r. lp_mlbId r = csv_mlbId (c_name player)) (PPlayer db) = Some existingPlayer"
      and "\<not> fails env PrismaPlayerFindUnique" and "\<not> fails env PrismaStatsUpsert"
  shows "fst (import_step env player (db, c)) =
           playerStats_upsert (lp_id existingPlayer, 2025, seasonEndDate)
             (end_of_season_values (c_homeRuns player))
             \<lparr>st_id = 0, st_playerId = lp_id existingPlayer, st_seasonYear = 2025,
               st_date = seasonEndDate, st_hrsTotal = c_homeRuns player,
               st_hrsRegularSeason = c_homeRuns player, st_hrsPostseason = 0\<rparr>
             db"
proof -
  have "end_of_season_values (c_homeRuns player) =
        (\<lambda>r. r\<lparr>st_hrsTotal := c_homeRuns player, st_hrsRegularSeason := c_homeRuns player,
               st_hrsPostseason := 0\<rparr>)"
    by (rule ext) (simp add: end_of_season_values_def)
  with assms show ?thesis
    by (simp add: import_step_def Let_def split: option.splits)
qed

text \<open>
  C7. The snapshot write of \<^verbatim>\<open>import2025Season\<close> is keyed by (playerId, seasonYear, date):
  when a snapshot exists for that exact key its values are replaced by the new ones and
  no other row changes; the snapshots of any other date (so every earlier date of the
  player's season) are the same after one write, and after the whole import, as before:
  none is deleted or altered.
\<close>

theorem snapshot_write_replaces_same_date_only:
  "(find (\<lambda>r. lp_mlbId r = csv_mlbId (c_name player)) (PPlayer db) = Some existingPlayer \<and>
    \<not> fails env PrismaPlayerFindUnique \<and> \<not> fails env PrismaStatsUpsert \<and>
    (lp_id existingPlayer, 2025, seasonEndDate) \<in> set (map stats_key (PlayerStats db))
    \<longrightarrow> PlayerStats (fst (import_step env player (db, c))) =
          map (\<lambda>r. if stats_key r = (lp_id existingPlayer, 2025, seasonEndDate)
                   then end_of_season_values (c_homeRuns player) r else r)
              (PlayerStats db)) \<and>
   filter (\<lambda>r. st_date r \<noteq> seasonEndDate) (PlayerStats (fst (import_step env player st)))
     = filter (\<lambda>r. st_date r \<noteq> seasonEndDate) (PlayerStats (fst st)) \<and>
   filter (\<lambda>r. st_date r \<noteq> seasonEndDate) (PlayerStats (fst (import_loop envs i players st)))
     = filter (\<lambda>r. st_date r \<noteq> seasonEndDate) (PlayerStats (fst st))"
proof (intro conjI impI)
  assume a: "find (\<lambda>r. lp_mlbId r = csv_mlbId (c_name player)) (PPlayer db) = Some existingPlayer \<and>
    \<not> fails env PrismaPlayerFindUnique \<and> \<not> fails env PrismaStatsUpsert \<and>
    (lp_id existingPlayer, 2025, seasonEndDate) \<in> set (map stats_key (PlayerStats db))"
  then have "fst (import_step env player (db, c)) =
           playerStats_upsert (lp_id existingPlayer, 2025, seasonEndDate)
             (end_of_season_values (c_homeRuns player))
             \<lparr>st_id = 0, st_playerId = lp_id existingPlayer, st_seasonYear = 2025,
               st_date = seasonEndDate, st_hrsTotal = c_homeRuns player,
               st_hrsRegularSeason = c_homeRuns player, st_hrsPostseason = 0\<rparr>
             db"
    by (intro import_step_writes) simp_all
  with a show "PlayerStats (fst (import_step env player (db, c))) =
          map (\<lambda>r. if stats_key r = (lp_id existingPlayer, 2025, seasonEndDate)
                   then end_of_season_values (c_homeRuns player) r else r)
              (PlayerStats db)"
    by (simp add: playerStats_upsert_def)
qed (rule import_step_other_dates, rule import_loop_other_dates)

lemma monotone_by_date_iff:
  "monotone_by_date rows \<longleftrightarrow>
     (\<forall>a \<in> set rows. \<forall>b \<in> set rows. st_date a < st_date b \<longrightarrow> st_hrsTotal a \<le> st_hrsTotal b)"
  by (simp add: monotone_by_date_def list_all_iff)

lemma stats_key_end_of_season [simp]: "stats_key (end_of_season_values h r) = stats_key r"
  by (simp add: stats_key_def end_of_season_values_def)

lemma season_snapshots_after_write:
  fixes db :: prisma_database
  assumes "stats_key create = (pid, yr, d)" and "st_hrsTotal create = h"
  defines "db' \<equiv> playerStats_upsert (pid, yr, d) (end_of_season_values h) create db"
  shows "\<exists>E. set (season_snapshots pid yr db') =
               {r \<in> set (season_snapshots pid yr db). st_date r \<noteq> d} \<union> E \<and>
             E \<noteq> {} \<and> (\<forall>e \<in> E. st_date e = d \<and> st_hrsTotal e = h)"
proof (cases "(pid, yr, d) \<in> set (map stats_key (PlayerStats db))")
  case True
  let ?E = "end_of_season_values h ` {r \<in> set (PlayerStats db). stats_key r = (pid, yr, d)}"
  have "set (season_snapshots pid yr db') =
          {r \<in> set (season_snapshots pid yr db). st_date r \<noteq> d} \<union> ?E"
    using True unfolding db'_def
    by (auto simp: season_snapshots_def playerStats_upsert_def stats_key_def end_of_season_values_def image_iff)
  moreover have "?E \<noteq> {}" using True by auto
  moreover have "\<forall>e \<in> ?E. st_date e = d \<and> st_hrsTotal e = h"
    by (auto simp: stats_key_def end_of_season_values_def)
  ultimately show ?thesis by blast
next
  case False
  let ?E = "{create\<lparr>st_id := prisma_next_uuid db\<rparr>}"
  have "\<And>r. r \<in> set (season_snapshots pid yr db) \<Longrightarrow> st_date r \<noteq> d"
    using False by (auto simp: season_snapshots_def stats_key_def image_iff)
  then have "set (season_snapshots pid yr db') =
          {r \<in> set (season_snapshots pid yr db). st_date r \<noteq> d} \<union> ?E"
    using False assms(1) unfolding db'_def
    by (auto simp: season_snapshots_def playerStats_upsert_def stats_key_def)
  moreover have "\<forall>e \<in> ?E. st_date e = d \<and> st_hrsTotal e = h"
    using assms(1,2) by (simp add: stats_key_def)
  ultimately show ?thesis by blast
qed

lemma monotone_after_write:
  assumes S: "S' = {r \<in> S. st_date r \<noteq> d} \<union> E" and E: "E \<noteq> {}"
      and Eh: "\<forall>e \<in> E. st_date e = d \<and> st_hrsTotal e = h"
      and mono: "\<forall>a \<in> S. \<forall>b \<in> S. st_date a < st_date b \<longrightarrow> st_hrsTotal a \<le> st_hrsTotal b"
  shows "(\<forall>a \<in> S'. \<forall>b \<in> S'. st_date a < st_date b \<longrightarrow> st_hrsTotal a \<le> st_hrsTotal b) \<longleftrightarrow>
         (\<forall>r \<in> S. (st_date r < d \<longrightarrow> st_hrsTotal r \<le> h) \<and> (d < st_date r \<longrightarrow> h \<le> st_hrsTotal r))"
proof
  assume m: "\<forall>a \<in> S'. \<forall>b \<in> S'. st_date a < st_date b \<longrightarrow> st_hrsTotal a \<le> st_hrsTotal b"
  from E obtain e where e: "e \<in> E" by auto
  then have e': "e \<in> S'" "st_date e = d" "st_hrsTotal e = h" using S Eh by auto
  show "\<forall>r \<in> S. (st_date r < d \<longrightarrow> st_hrsTotal r \<le> h) \<and> (d < st_date r \<longrightarrow> h \<le> st_hrsTotal r)"
  proof (intro ballI conjI impI)
    fix r assume "r \<in> S" "st_date r < d"
    then have "r \<in> S'" using S by auto
    with m e' \<open>st_date r < d\<close> show "st_hrsTotal r \<le> h" by metis
  next
    fix r assume "r \<in> S" "d < st_date r"
    then have "r \<in> S'" using S by auto
    with m e' \<open>d < st_date r\<close> show "h \<le> st_hrsTotal r" by metis
  qed
next
  assume b: "\<forall>r \<in> S. (st_date r < d \<longrightarrow> st_hrsTotal r \<le> h) \<and> (d < st_date r \<longrightarrow> h \<le> st_hrsTotal r)"
  show "\<forall>a \<in> S'. \<forall>b \<in> S'. st_date a < st_date b \<longrightarrow> st_hrsTotal a \<le> st_hrsTotal b"
  proof (intro ballI impI)
    fix a c assume ac: "a \<in> S'" "c \<in> S'" "st_date a < st_date c"
    consider "a \<in> S" "st_date a \<noteq> d" "c \<in> S" "st_date c \<noteq> d"
      | "a \<in> E" "c \<in> S" "st_date c \<noteq> d"
      | "a \<in> S" "st_date a \<noteq> d" "c \<in> E"
      | "a \<in> E" "c \<in> E"
      using ac S by auto
    then show "st_hrsTotal a \<le> st_hrsTotal c"
    proof cases
      case 1 then show ?thesis using mono ac(3) by blast
    next
      case 2 then show ?thesis using Eh b ac(3) by force
    next
      case 3 then show ?thesis using Eh b ac(3) by force
    next
      case 4 then show ?thesis using Eh ac(3) by force
    qed
  qed
qed

text \<open>
  C8 (as amended). The archive write checks nothing: it stores the fetched value. After
  a write into a season whose snapshots were non-decreasing by date, they are
  non-decreasing again exactly when the written value is no lower than every snapshot of
  an earlier date and no higher than every snapshot of a later date.
\<close>

theorem snapshot_write_monotone_iff_bounded:
  assumes "find (\<lambda>r. lp_mlbId r = csv_mlbId (c_name player)) (PPlayer db) = Some existingPlayer"
      and "\<not> fails env PrismaPlayerFindUnique" and "\<not> fails env PrismaStatsUpsert"
      and "monotone_by_date (season_snapshots (lp_id existingPlayer) 2025 db)"
  shows "monotone_by_date (season_snapshots (lp_id existingPlayer) 2025 (fst (import_step env player (db, c))))
         \<longleftrightarrow>
         (\<forall>r \<in> set (season_snapshots (lp_id existingPlayer) 2025 db).
            (st_date r < seasonEndDate \<longrightarrow> st_hrsTotal r \<le> c_homeRuns player) \<and>
            (seasonEndDate < st_date r \<longrightarrow> c_homeRuns player \<le> st_hrsTotal r))"
proof -
  let ?create = "\<lparr>st_id = 0, st_playerId = lp_id existingPlayer, st_seasonYear = 2025,
               st_date = seasonEndDate, st_hrsTotal = c_homeRuns player,
               st_hrsRegularSeason = c_homeRuns player, st_hrsPostseason = 0\<rparr>"
  have w: "fst (import_step env player (db, c)) =
           playerStats_upsert (lp_id existingPlayer, 2025, seasonEndDate)
             (end_of_season_values (c_homeRuns player)) ?create db"
    using assms(1-3) by (rule import_step_writes)
  obtain E where E: "set (season_snapshots (lp_id existingPlayer) 2025 (fst (import_step env player (db, c)))) =
               {r \<in> set (season_snapshots (lp_id existingPlayer) 2025 db). st_date r \<noteq> seasonEndDate} \<union> E"
       "E \<noteq> {}" "\<forall>e \<in> E. st_date e = seasonEndDate \<and> st_hrsTotal e = c_homeRuns player"
    using season_snapshots_after_write [of ?create "lp_id existingPlayer" 2025 seasonEndDate "c_homeRuns player" db]
    unfolding w by (auto simp: stats_key_def)
  show ?thesis
    unfolding monotone_by_date_iff
    using monotone_after_write [OF E] assms(4) unfolding monotone_by_date_iff by blast
qed

lemma parse_season_csv_40: "parseCSV season_csv_40 = [csv_judge 40]"
  by code_simp

lemma import_sep1_40:
  "PlayerStats (fst (import2025Season (\<lambda>i. ok_tick 0) season_csv_40 archive_sep1))
     = [snapshot 10 20250901 50, snapshot 11 20250928 40]"
  by code_simp

lemma import_sep28_40:
  "PlayerStats (fst (import2025Season (\<lambda>i. ok_tick 0) season_csv_40 archive_sep28))
     = [snapshot 10 20250901 50, snapshot 11 20250928 40]"
  by code_simp

text \<open>
  C8 as stated fails: a first write for the season's last day below the total of an
  earlier date leaves the series decreasing, and a write for a date that has a snapshot
  replaces it by a lower total.
\<close>

theorem archive_write_not_monotone_counterexample:
  "monotone_by_date (season_snapshots 1 2025 archive_sep1) \<and>
   (1, 2025, seasonEndDate) \<notin> set (map stats_key (PlayerStats archive_sep1)) \<and>
   map st_hrsTotal (season_snapshots 1 2025 (fst (import2025Season (\<lambda>i. ok_tick 0) season_csv_40 archive_sep1)))
     = [50, 40] \<and>
   \<not> monotone_by_date (season_snapshots 1 2025 (fst (import2025Season (\<lambda>i. ok_tick 0) season_csv_40 archive_sep1))) \<and>
   map (\<lambda>r. (st_date r, st_hrsTotal r)) (season_snapshots 1 2025 archive_sep28)
     = [(20250901, 50), (20250928, 55)] \<and>
   map (\<lambda>r. (st_date r, st_hrsTotal r))
       (season_snapshots 1 2025 (fst (import2025Season (\<lambda>i. ok_tick 0) season_csv_40 archive_sep28)))
     = [(20250901, 50), (20250928, 40)]"
  by code_simp

lemma judge_found:
  "find (\<lambda>r. lp_mlbId r = csv_mlbId (c_name (csv_judge h))) (PPlayer archive_sep28) = Some judge_row"
  "find (\<lambda>r. lp_mlbId r = csv_mlbId (c_name (csv_judge h))) (PPlayer archive_sep1) = Some judge_row"
proof -
  have "csv_mlbId ''Aaron Judge'' = ''aaron-judge''" by code_simp
  then show "find (\<lambda>r. lp_mlbId r = csv_mlbId (c_name (csv_judge h))) (PPlayer archive_sep28) = Some judge_row"
     "find (\<lambda>r. lp_mlbId r = csv_mlbId (c_name (csv_judge h))) (PPlayer archive_sep1) = Some judge_row"
    by (simp_all add: csv_judge_def archive_sep28_def archive_sep1_def judge_row_def)
qed

text \<open>An instance: importing 58 home runs into an archive that has the snapshots of
  September 1st and of the season's last day rewrites the latter and keeps the former.\<close>

theorem snapshot_write_replaces_same_date_only_witness:
  "PlayerStats (fst (import_step (ok_tick 0) (csv_judge 58) (archive_sep28, no_counts)))
     = [snapshot 10 20250901 50, snapshot 11 20250928 58] \<and>
   filter (\<lambda>r. st_date r \<noteq> seasonEndDate)
      (PlayerStats (fst (import_loop (\<lambda>i. ok_tick 0) 0 [csv_judge 58] (archive_sep28, no_counts))))
     = [snapshot 10 20250901 50]"
proof -
  have k: "(lp_id judge_row, 2025, seasonEndDate) \<in> set (map stats_key (PlayerStats archive_sep28))"
    by code_simp
  have f: "\<not> fails (ok_tick 0) PrismaPlayerFindUnique" "\<not> fails (ok_tick 0) PrismaStatsUpsert"
    by (simp_all add: ok_tick_def)
  have m: "map (\<lambda>r. if stats_key r = (lp_id judge_row, 2025, seasonEndDate)
                   then end_of_season_values (c_homeRuns (csv_judge 58)) r else r)
              (PlayerStats archive_sep28) = [snapshot 10 20250901 50, snapshot 11 20250928 58]"
    by code_simp
  have e: "filter (\<lambda>r. st_date r \<noteq> seasonEndDate) (PlayerStats (fst (archive_sep28, no_counts)))
            = [snapshot 10 20250901 50]"
    by code_simp
  note t = snapshot_write_replaces_same_date_only
            [where player = "csv_judge 58" and db = archive_sep28 and existingPlayer = judge_row
               and env = "ok_tick 0" and c = no_counts and envs = "\<lambda>i. ok_tick 0" and i = 0
               and players = "[csv_judge 58]" and st = "(archive_sep28, no_counts)"]
  from t judge_found(1) [of 58] k f
  have 1: "PlayerStats (fst (import_step (ok_tick 0) (csv_judge 58) (archive_sep28, no_counts))) =
          map (\<lambda>r. if stats_key r = (lp_id judge_row, 2025, seasonEndDate)
                   then end_of_season_values (c_homeRuns (csv_judge 58)) r else r)
              (PlayerStats archive_sep28)"
    by blast
  from t
  have 2: "filter (\<lambda>r. st_date r \<noteq> seasonEndDate)
      (PlayerStats (fst (import_loop (\<lambda>i. ok_tick 0) 0 [csv_judge 58] (archive_sep28, no_counts))))
     = filter (\<lambda>r. st_date r \<noteq> seasonEndDate) (PlayerStats (fst (archive_sep28, no_counts)))"
    by blast
  show ?thesis
    by (simp only: 1 2 m e)
qed

text \<open>An instance: a first snapshot of 58 for the season's last day, after 50 on September
  1st, keeps the series non-decreasing.\<close>

theorem snapshot_write_monotone_iff_bounded_witness:
  "monotone_by_date (season_snapshots (lp_id judge_row) 2025 archive_sep1) \<and>
   monotone_by_date (season_snapshots (lp_id judge_row) 2025
      (fst (import_step (ok_tick 0) (csv_judge 58) (archive_sep1, no_counts))))"
proof -
  have f: "\<not> fails (ok_tick 0) PrismaPlayerFindUnique" "\<not> fails (ok_tick 0) PrismaStatsUpsert"
    by (simp_all add: ok_tick_def)
  have m: "monotone_by_date (season_snapshots (lp_id judge_row) 2025 archive_sep1)"
    by code_simp
  have s: "season_snapshots (lp_id judge_row) 2025 archive_sep1 = [snapshot 10 20250901 50]"
    by code_simp
  have b: "st_hrsTotal (snapshot 10 20250901 50) \<le> c_homeRuns (csv_judge 58)"
          "\<not> seasonEndDate < st_date (snapshot 10 20250901 50)"
    by (simp_all add: snapshot_def csv_judge_def seasonEndDate_def)
  show ?thesis
    using snapshot_write_monotone_iff_bounded [OF judge_found(2) f m, of 58 no_counts] m s b
    by simp
qed

section \<open>Properties of the Scoring Engine and the Leaderboard Builder\<close>

lemma length_sort_desc [simp]: "length (sort_desc xs) = length xs"
  by (simp add: sort_desc_def)

lemma mset_sort_desc [simp]: "mset (sort_desc xs) = mset xs"
  by (simp add: sort_desc_def)

lemma set_sort_desc [simp]: "set (sort_desc xs) = set xs"
  by (simp add: sort_desc_def)

lemma sum_sort_desc: "sum_list (map snd (sort_desc xs)) = sum_list (map snd xs)"
proof -
  have "mset (map snd (sort_desc xs)) = mset (map snd xs)"
    by simp
  then show ?thesis
    by (metis sum_mset_sum_list)
qed

lemma sort_desc_descending:
  assumes "i \<le> j" and "j < length xs"
  shows "snd (sort_desc xs ! j) \<le> snd (sort_desc xs ! i)"
proof -
  have "sorted (map (\<lambda>(k, hrs). - hrs) (sort_desc xs))"
    unfolding sort_desc_def by (rule sorted_sort_key)
  then have "(map (\<lambda>(k, hrs). - hrs) (sort_desc xs)) ! i \<le> (map (\<lambda>(k, hrs). - hrs) (sort_desc xs)) ! j"
    using assms by (intro sorted_nth_mono) simp_all
  then show ?thesis
    using assms by (simp add: case_prod_beta)
qed

lemma sort_desc_stable:
  "filter (\<lambda>y. snd y = m) (sort_desc xs) = filter (\<lambda>y. snd y = m) xs"
proof -
  have "filter (\<lambda>y. (\<lambda>(k, hrs). - hrs) y = - m) (sort_key (\<lambda>(k, hrs). - hrs) xs)
        = filter (\<lambda>y. (\<lambda>(k, hrs). - hrs) y = - m) xs"
    by (rule sort_key_stable)
  then show ?thesis
    by (simp add: sort_desc_def case_prod_beta)
qed

lemma last_filter: "xs \<noteq> [] \<Longrightarrow> P (last xs) \<Longrightarrow> last (filter P xs) = last xs"
  by (induction xs rule: rev_induct) simp_all

lemma last_filter_index:
  "filter P xs \<noteq> [] \<Longrightarrow>
   \<exists>k < length xs. xs ! k = last (filter P xs) \<and> (\<forall>j. k < j \<and> j < length xs \<longrightarrow> \<not> P (xs ! j))"
proof (induction xs rule: rev_induct)
  case Nil
  then show ?case by simp
next
  case (snoc x xs)
  show ?case
  proof (cases "P x")
    case True
    then show ?thesis
      by (intro exI [of _ "length xs"]) auto
  next
    case False
    with snoc obtain k where k: "k < length xs" "xs ! k = last (filter P xs)"
        "\<forall>j. k < j \<and> j < length xs \<longrightarrow> \<not> P (xs ! j)"
      by auto
    show ?thesis
    proof (intro exI [of _ k] conjI allI impI)
      show "k < length (xs @ [x])" using k by simp
      show "(xs @ [x]) ! k = last (filter P (xs @ [x]))" using k False by (simp add: nth_append)
      fix j assume "k < j \<and> j < length (xs @ [x])"
      then show "\<not> P ((xs @ [x]) ! j)"
        using k(3) False by (cases "j < length xs") (auto simp: nth_append less_Suc_eq)
    qed
  qed
qed

lemma sort_desc_last_is_min:
  assumes "xs \<noteq> []"
  shows "snd (last (sort_desc xs)) = Min (set (map snd xs))"
proof (rule sym, rule Min_eqI)
  show "finite (set (map snd xs))" by simp
next
  fix y assume "y \<in> set (map snd xs)"
  then obtain p where p: "p \<in> set xs" "y = snd p" by auto
  then have "p \<in> set (sort_desc xs)" by simp
  then obtain i where "i < length (sort_desc xs)" "sort_desc xs ! i = p"
    by (metis in_set_conv_nth)
  with p have i: "i < length xs" "y = snd (sort_desc xs ! i)" by simp_all
  have "snd (sort_desc xs ! (length xs - 1)) \<le> snd (sort_desc xs ! i)"
    using i assms by (intro sort_desc_descending) auto
  moreover have "last (sort_desc xs) = sort_desc xs ! (length xs - 1)"
    using assms by (metis last_conv_nth length_0_conv length_sort_desc)
  ultimately show "snd (last (sort_desc xs)) \<le> y" using i by simp
next
  have "sort_desc xs \<noteq> []" using assms by (metis length_0_conv length_sort_desc)
  then have "last (sort_desc xs) \<in> set (sort_desc xs)" by (rule last_in_set)
  then show "snd (last (sort_desc xs)) \<in> set (map snd xs)" by auto
qed

lemma sort_desc_last_index:
  assumes "xs \<noteq> []"
  shows "\<exists>k < length xs. xs ! k = last (sort_desc xs) \<and>
           (\<forall>j. k < j \<and> j < length xs \<longrightarrow> snd (xs ! k) < snd (xs ! j))"
proof -
  let ?e = "last (sort_desc xs)"
  let ?P = "\<lambda>y. snd y = snd ?e"
  have ne: "sort_desc xs \<noteq> []" using assms by (metis length_0_conv length_sort_desc)
  have "last (filter ?P (sort_desc xs)) = ?e"
    using ne by (intro last_filter) simp_all
  then have e: "last (filter ?P xs) = ?e"
    by (simp add: sort_desc_stable)
  have "?e \<in> set (sort_desc xs)" using ne by (rule last_in_set)
  then have "?e \<in> set (filter ?P xs)" by simp
  then have "filter ?P xs \<noteq> []" by (metis empty_iff empty_set)
  then obtain k where k: "k < length xs" "xs ! k = last (filter ?P xs)"
      "\<forall>j. k < j \<and> j < length xs \<longrightarrow> \<not> ?P (xs ! j)"
    using last_filter_index [of ?P xs] by blast
  show ?thesis
  proof (intro exI [of _ k] conjI allI impI)
    show "k < length xs" by (rule k(1))
    show "xs ! k = ?e" using k(2) e by simp
    fix j assume j: "k < j \<and> j < length xs"
    then have "snd (xs ! j) \<noteq> snd ?e" using k(3) by blast
    moreover have "snd ?e \<le> snd (xs ! j)"
      using j sort_desc_last_is_min [OF assms] by simp
    ultimately show "snd (xs ! k) < snd (xs ! j)" using k(2) e by simp
  qed
qed

text \<open>
  C1. For a roster of 8 players with their period totals, \<open>bestSevenTotal\<close> is the sum
  of the seven largest totals (the sum of all eight less the minimum); the excluded
  player has the minimum total, and on a tie it is the one latest in the roster: every
  later position has a strictly larger total.
\<close>

theorem scoreRoster_best_seven_of_eight:
  assumes "length roster = 8"
  shows "bestSevenTotal (scoreRoster roster) = sum_list (map snd roster) - Min (set (map snd roster)) \<and>
         (\<exists>k < 8. excludedPlayerId (scoreRoster roster) = Some (fst (roster ! k)) \<and>
                  snd (roster ! k) = Min (set (map snd roster)) \<and>
                  bestSevenTotal (scoreRoster roster) = sum_list (map snd roster) - snd (roster ! k) \<and>
                  (\<forall>j. k < j \<and> j < 8 \<longrightarrow> snd (roster ! k) < snd (roster ! j)))"
proof -
  let ?s = "sort_desc roster"
  have len: "length ?s = 8" using assms by simp
  have ne: "roster \<noteq> []" using assms by auto
  have "?s \<noteq> []" using ne by (metis length_0_conv length_sort_desc)
  then have last: "last ?s = ?s ! 7"
    using len by (simp add: last_conv_nth)
  have "take (Suc 7) ?s = take 7 ?s @ [?s ! 7]"
    using assms by (intro take_Suc_conv_app_nth) simp
  moreover have "take (Suc 7) ?s = ?s"
    using assms by simp
  ultimately have split: "?s = take 7 ?s @ [?s ! 7]"
    by simp
  have "sum_list (map snd ?s) = sum_list (map snd (take 7 ?s)) + snd (?s ! 7)"
    by (subst split) simp
  then have best: "bestSevenTotal (scoreRoster roster) = sum_list (map snd roster) - snd (last ?s)"
    by (simp add: scoreRoster_def Let_def sum_sort_desc last)
  have excl: "excludedPlayerId (scoreRoster roster) = Some (fst (last ?s))"
    using len by (simp add: scoreRoster_def Let_def last)
  have min: "snd (last ?s) = Min (set (map snd roster))"
    using ne by (rule sort_desc_last_is_min)
  obtain k where k: "k < length roster" "roster ! k = last ?s"
      "\<forall>j. k < j \<and> j < length roster \<longrightarrow> snd (roster ! k) < snd (roster ! j)"
    using sort_desc_last_index [OF ne] by blast
  have "\<exists>k < 8. excludedPlayerId (scoreRoster roster) = Some (fst (roster ! k)) \<and>
                  snd (roster ! k) = Min (set (map snd roster)) \<and>
                  bestSevenTotal (scoreRoster roster) = sum_list (map snd roster) - snd (roster ! k) \<and>
                  (\<forall>j. k < j \<and> j < 8 \<longrightarrow> snd (roster ! k) < snd (roster ! j))"
    using k assms excl min best by (intro exI [of _ k]) simp
  then show ?thesis using best min by simp
qed

text \<open>An instance: the spec's scenario scores 123 and excludes the player with 0; of two
  players tied at the lowest total, the later one in the roster is excluded.\<close>

theorem scoreRoster_best_seven_of_eight_witness:
  "length spec_roster = 8 \<and>
   bestSevenTotal (scoreRoster spec_roster) = 123 \<and>
   excludedPlayerId (scoreRoster spec_roster) = Some 17 \<and>
   length tied_roster = 8 \<and>
   bestSevenTotal (scoreRoster tied_roster) = 83 \<and>
   excludedPlayerId (scoreRoster tied_roster) = Some 12"
proof -
  have l: "length spec_roster = 8" "length tied_roster = 8"
    by (simp_all add: spec_roster_def tied_roster_def)
  have s: "sum_list (map snd spec_roster) - Min (set (map snd spec_roster)) = 123"
          "sum_list (map snd tied_roster) - Min (set (map snd tied_roster)) = 83"
    by (simp_all add: spec_roster_def tied_roster_def)
  have e: "excludedPlayerId (scoreRoster spec_roster) = Some 17"
          "excludedPlayerId (scoreRoster tied_roster) = Some 12"
    by code_simp+
  show ?thesis
    using scoreRoster_best_seven_of_eight [OF l(1)] scoreRoster_best_seven_of_eight [OF l(2)] l s e
    by simp
qed

lemma sort_desc_sorted: "sorted_wrt (\<lambda>a b. snd b \<le> snd a) (sort_desc xs)"
  by (auto simp: sorted_wrt_iff_nth_less intro: sort_desc_descending)

lemma assign_ranks_fields:
  "map (\<lambda>e. (rosterId e, totalHrs e)) (assign_ranks i prev xs) = xs"
  by (induction xs arbitrary: i prev) (auto simp: Let_def)

lemma count_above_append:
  "length (filter (\<lambda>(r, h). m < h) (pre @ xs)) =
     length (filter (\<lambda>(r, h). m < h) pre) + length (filter (\<lambda>(r, h). m < h) xs)"
  by simp

lemma count_above_none:
  "\<forall>y \<in> set xs. snd y \<le> (m::int) \<Longrightarrow> length (filter (\<lambda>(r, h). m < h) xs) = (0::nat)"
  by (induction xs) auto

lemma count_above_all:
  "\<forall>y \<in> set xs. (m::int) < snd y \<Longrightarrow> length (filter (\<lambda>(r, h). m < h) xs) = length xs"
  by (induction xs) auto

lemma sorted_desc_last_le:
  "sorted_wrt (\<lambda>a b. snd b \<le> snd a) (xs :: ('a \<times> int) list) \<Longrightarrow> p \<in> set xs
     \<Longrightarrow> snd (last xs) \<le> snd p"
  by (induction xs) auto

lemma assign_ranks_rank:
  assumes "sorted_wrt (\<lambda>a b. snd b \<le> snd a) (pre @ xs)"
      and "length pre = i"
      and "prev = (if pre = [] then None
                   else Some (snd (last pre),
                              Suc (length (filter (\<lambda>(r, h). snd (last pre) < h) pre))))"
      and "e \<in> set (assign_ranks i prev xs)"
  shows "rank e = Suc (length (filter (\<lambda>(r, h). totalHrs e < h) (pre @ xs)))"
  using assms
proof (induction xs arbitrary: pre i prev)
  case Nil
  then show ?case by simp
next
  case (Cons x rest)
  obtain rid hrs where x: "x = (rid, hrs)" by (cases x)
  define r where "r = (case prev of None \<Rightarrow> Suc i
                        | Some (prevHrs, prevRank) \<Rightarrow> if prevHrs = hrs then prevRank else Suc i)"
  have srt: "sorted_wrt (\<lambda>a b. snd b \<le> snd a) pre" "\<forall>y \<in> set rest. snd y \<le> hrs"
       "\<forall>p \<in> set pre. hrs \<le> snd p"
    using Cons.prems(1) x by (auto simp: sorted_wrt_append)
  have tail0: "length (filter (\<lambda>(r, h). hrs < h) (x # rest)) = 0"
    using srt(2) x by (intro count_above_none) auto
  have r_eq: "r = Suc (length (filter (\<lambda>(r, h). hrs < h) pre))"
  proof (cases "pre = []")
    case True
    then show ?thesis using Cons.prems(2,3) by (simp add: r_def)
  next
    case False
    then have prev: "prev = Some (snd (last pre), Suc (length (filter (\<lambda>(r, h). snd (last pre) < h) pre)))"
      using Cons.prems(3) by simp
    show ?thesis
    proof (cases "snd (last pre) = hrs")
      case True
      then show ?thesis using prev by (simp add: r_def)
    next
      case ne: False
      have "last pre \<in> set pre" using False by simp
      then have lt: "hrs < snd (last pre)" using srt(3) ne by force
      have "\<forall>p \<in> set pre. snd (last pre) \<le> snd p"
        using srt(1) by (auto intro: sorted_desc_last_le)
      then have "\<forall>p \<in> set pre. hrs < snd p" using lt by force
      then have "length (filter (\<lambda>(r, h). hrs < h) pre) = length pre"
        by (rule count_above_all)
      then show ?thesis using prev ne Cons.prems(2) by (simp add: r_def)
    qed
  qed
  have step: "assign_ranks i prev (x # rest) =
        \<lparr>rosterId = rid, rank = r, totalHrs = hrs\<rparr> # assign_ranks (Suc i) (Some (hrs, r)) rest"
    by (simp add: x r_def Let_def)
  from Cons.prems(4) step consider "e = \<lparr>rosterId = rid, rank = r, totalHrs = hrs\<rparr>"
    | "e \<in> set (assign_ranks (Suc i) (Some (hrs, r)) rest)"
    by auto
  then show ?case
  proof cases
    case 1
    then show ?thesis using r_eq tail0 by simp
  next
    case 2
    have "rank e = Suc (length (filter (\<lambda>(r, h). totalHrs e < h) ((pre @ [x]) @ rest)))"
    proof (rule Cons.IH [OF _ _ _ 2])
      show "sorted_wrt (\<lambda>a b. snd b \<le> snd a) ((pre @ [x]) @ rest)" using Cons.prems(1) by simp
      show "length (pre @ [x]) = Suc i" using Cons.prems(2) by simp
      show "Some (hrs, r) = (if pre @ [x] = [] then None
                   else Some (snd (last (pre @ [x])),
                              Suc (length (filter (\<lambda>(r, h). snd (last (pre @ [x])) < h) (pre @ [x])))))"
        using r_eq x by simp
    qed
    then show ?thesis by simp
  qed
qed

lemma count_filter_sort_desc:
  "length (filter P (sort_desc xs)) = length (filter P xs)"
proof -
  have "mset (filter P (sort_desc xs)) = mset (filter P xs)"
    by simp
  then show ?thesis by (metis size_mset)
qed

text \<open>
  C2. The leaderboard lists the rosters by descending \<open>totalHrs\<close>, every roster once;
  the rank of an entry is the number of rosters with a strictly larger total, plus 1, so
  tied rosters share a rank; the totals 50, 50, 40, 30 get the ranks 1, 1, 3, 4.
\<close>

theorem buildLeaderboard_competition_ranking:
  "sorted_wrt (\<lambda>a b. b \<le> a) (map totalHrs (buildLeaderboard scores)) \<and>
   mset (map (\<lambda>e. (rosterId e, totalHrs e)) (buildLeaderboard scores)) = mset scores \<and>
   (\<forall>e \<in> set (buildLeaderboard scores).
      rank e = Suc (length (filter (\<lambda>(r, h). totalHrs e < h) scores))) \<and>
   (\<forall>e \<in> set (buildLeaderboard scores). \<forall>e' \<in> set (buildLeaderboard scores).
      totalHrs e = totalHrs e' \<longrightarrow> rank e = rank e') \<and>
   map rank (buildLeaderboard [(a, 50), (b, 50), (c, 40), (d, 30)]) = [1, 1, 3, 4]"
proof -
  have fields: "map (\<lambda>e. (rosterId e, totalHrs e)) (buildLeaderboard scores) = sort_desc scores"
    by (simp add: buildLeaderboard_def assign_ranks_fields)
  have "map totalHrs (buildLeaderboard scores) = map snd (map (\<lambda>e. (rosterId e, totalHrs e)) (buildLeaderboard scores))"
    by (simp add: comp_def)
  then have "map totalHrs (buildLeaderboard scores) = map snd (sort_desc scores)"
    by (simp only: fields)
  then have 1: "sorted_wrt (\<lambda>a b. b \<le> a) (map totalHrs (buildLeaderboard scores))"
    using sort_desc_sorted [of scores] by (simp add: sorted_wrt_map)
  have 2: "mset (map (\<lambda>e. (rosterId e, totalHrs e)) (buildLeaderboard scores)) = mset scores"
    by (simp only: fields mset_sort_desc)
  have 3: "rank e = Suc (length (filter (\<lambda>(r, h). totalHrs e < h) scores))"
    if "e \<in> set (buildLeaderboard scores)" for e
  proof -
    have "rank e = Suc (length (filter (\<lambda>(r, h). totalHrs e < h) ([] @ sort_desc scores)))"
      using that sort_desc_sorted [of scores]
      by (intro assign_ranks_rank [where i = 0 and prev = None]) (simp_all add: buildLeaderboard_def)
    then show ?thesis by (simp add: count_filter_sort_desc)
  qed
  have 5: "map rank (buildLeaderboard [(a, 50), (b, 50), (c, 40), (d, 30)]) = [1, 1, 3, 4]"
    by (simp add: buildLeaderboard_def sort_desc_def Let_def)
  show ?thesis
    using 1 2 3 5 by simp
qed

text \<open>An instance: the totals 40, 50, 30, 50 are listed as 50, 50, 40, 30 with the ranks
  1, 1, 3, 4.\<close>

theorem buildLeaderboard_competition_ranking_witness:
  "map rank (buildLeaderboard sample_scores) = [1, 1, 3, 4] \<and>
   map rosterId (buildLeaderboard sample_scores) = [2, 4, 1, 3] \<and>
   \<lparr>rosterId = 1, rank = 3, totalHrs = 40\<rparr> \<in> set (buildLeaderboard sample_scores) \<and>
   rank \<lparr>rosterId = 1, rank = 3, totalHrs = 40\<rparr>
     = Suc (length (filter (\<lambda>(r, h). totalHrs \<lparr>rosterId = 1, rank = 3, totalHrs = 40\<rparr> < h) sample_scores))"
proof -
  have b: "buildLeaderboard sample_scores =
        [\<lparr>rosterId = 2, rank = 1, totalHrs = 50\<rparr>, \<lparr>rosterId = 4, rank = 1, totalHrs = 50\<rparr>,
         \<lparr>rosterId = 1, rank = 3, totalHrs = 40\<rparr>, \<lparr>rosterId = 3, rank = 4, totalHrs = 30\<rparr>]"
    by code_simp
  have m: "\<lparr>rosterId = 1, rank = 3, totalHrs = 40\<rparr> \<in> set (buildLeaderboard sample_scores)"
    unfolding b by simp
  from buildLeaderboard_competition_ranking [of sample_scores]
  have "\<forall>e \<in> set (buildLeaderboard sample_scores).
          rank e = Suc (length (filter (\<lambda>(r, h). totalHrs e < h) sample_scores))"
    by blast
  with m have "rank \<lparr>rosterId = 1, rank = 3, totalHrs = 40\<rparr>
     = Suc (length (filter (\<lambda>(r, h). totalHrs \<lparr>rosterId = 1, rank = 3, totalHrs = 40\<rparr> < h) sample_scores))"
    by blast
  moreover have "map rank (buildLeaderboard sample_scores) = [1, 1, 3, 4]"
      "map rosterId (buildLeaderboard sample_scores) = [2, 4, 1, 3]"
    unfolding b by simp_all
  ultimately show ?thesis
    using m by blast
qed

section \<open>Properties of the Identity Resolver\<close>

lemma distinct_map_eq:
  "distinct (map f xs) \<Longrightarrow> x \<in> set xs \<Longrightarrow> y \<in> set xs \<Longrightarrow> f x = f y \<Longrightarrow> x = y"
  by (meson distinct_map inj_onD)

lemma find_exists: "x \<in> set xs \<Longrightarrow> P x \<Longrightarrow> \<exists>y. find P xs = Some y"
  by (induction xs) auto

lemma find_mlbId_Some:
  "m \<in> set (map p_mlbId rows) \<Longrightarrow> \<exists>ex. find (\<lambda>r. p_mlbId r = m) rows = Some ex \<and> ex \<in> set rows \<and> p_mlbId ex = m"
  by (induction rows) auto

lemma find_mlbId_None:
  "m \<notin> set (map p_mlbId rows) \<Longrightarrow> find (\<lambda>r. p_mlbId r = m) rows = None"
  by (induction rows) auto

lemma update_by_id_is_by_mlbId:
  assumes "distinct (map p_id rows)" and "distinct (map p_mlbId rows)" and "ex \<in> set rows"
  shows "map (\<lambda>r. if p_id r = p_id ex then f r else r) rows
         = map (\<lambda>r. if p_mlbId r = p_mlbId ex then f r else r) rows"
proof (rule map_cong [OF refl])
  fix r assume "r \<in> set rows"
  then have "p_id r = p_id ex \<longleftrightarrow> p_mlbId r = p_mlbId ex"
    using assms by (metis distinct_map_eq)
  then show "(if p_id r = p_id ex then f r else r) = (if p_mlbId r = p_mlbId ex then f r else r)"
    by simp
qed

lemma seasonStats_upsert_Player:
  "seasonStats_upsert env key create update db = Inr db2 \<Longrightarrow>
     Player db2 = Player db \<and> next_uuid db \<le> next_uuid db2"
  by (auto simp: seasonStats_upsert_def split: if_splits option.splits)

lemma find_in_set: "find P xs = Some x \<Longrightarrow> x \<in> set xs \<and> P x"
  by (induction xs) (auto split: if_splits)

lemma player_upsert_result:
  assumes "\<not> fails env PlayerFindFirst" and "\<not> fails env PlayerWrite"
  shows "\<exists>row db1.
           player_upsert env (mlbId player) (new_player env player 0) (traded env player) db = Inr (row, db1) \<and>
           Player db1 =
             (case find (\<lambda>r. p_mlbId r = mlbId player) (Player db) of
                Some ex \<Rightarrow> map (\<lambda>r. if p_id r = p_id ex then traded env player r else r) (Player db)
              | None \<Rightarrow> Player db @ [new_player env player (next_uuid db)]) \<and>
           PlayerSeasonStats db1 = PlayerSeasonStats db \<and>
           next_uuid db1 =
             (case find (\<lambda>r. p_mlbId r = mlbId player) (Player db) of
                Some ex \<Rightarrow> next_uuid db | None \<Rightarrow> Suc (next_uuid db))"
proof (cases "find (\<lambda>r. p_mlbId r = mlbId player) (Player db)")
  case None
  then show ?thesis
    using assms
    by (simp add: player_upsert_def player_findFirst_def player_create_def new_player_def Let_def)
next
  case (Some ex)
  let ?rows = "map (\<lambda>r. if p_id r = p_id ex then traded env player r else r) (Player db)"
  have "ex \<in> set (Player db)" using Some find_in_set by fastforce
  then have "traded env player ex \<in> set ?rows" by force
  moreover have "p_id (traded env player ex) = p_id ex" by (simp add: traded_def)
  ultimately obtain row where row: "find (\<lambda>r. p_id r = p_id ex) ?rows = Some row"
    using find_exists [of "traded env player ex" ?rows "\<lambda>r. p_id r = p_id ex"] by blast
  show ?thesis
    using Some row assms
    by (simp add: player_upsert_def player_findFirst_def player_update_def Let_def)
qed

lemma seed_step_unfold:
  "seed_step seasonYear env player (db, c) =
     (case player_upsert env (mlbId player) (new_player env player 0) (traded env player) db of
        Inl e \<Rightarrow> (db, c\<lparr>skippedCount := Suc (skippedCount c)\<rparr>)
      | Inr (playerRecord, db1) \<Rightarrow>
          (case seasonStats_upsert env (p_id playerRecord, seasonYear)
                  \<lparr>s_id = 0, s_playerId = p_id playerRecord, s_seasonYear = seasonYear,
                    s_hrsTotal = homeRuns player, s_teamAbbr = teamAbbr player,
                    s_createdAt = now env, s_updatedAt = now env\<rparr>
                  (\<lambda>r. r\<lparr>s_hrsTotal := homeRuns player, s_teamAbbr := teamAbbr player,
                         s_updatedAt := now env\<rparr>)
                  db1 of
             Inl e \<Rightarrow> (db1, c\<lparr>skippedCount := Suc (skippedCount c)\<rparr>)
           | Inr db2 \<Rightarrow> (db2, c\<lparr>createdCount := Suc (createdCount c)\<rparr>)))"
proof -
  have "traded env player = (\<lambda>r. r\<lparr>p_teamAbbr := teamAbbr player, p_updatedAt := now env\<rparr>)"
    by (rule ext) (simp add: traded_def)
  then show ?thesis
    by (simp add: seed_step_def new_player_def Let_def)
qed

lemma seed_step_Player:
  assumes "\<not> fails env PlayerFindFirst" and "\<not> fails env PlayerWrite"
  shows "Player (fst (seed_step seasonYear env player (db, c))) =
           (case find (\<lambda>r. p_mlbId r = mlbId player) (Player db) of
              Some ex \<Rightarrow> map (\<lambda>r. if p_id r = p_id ex then traded env player r else r) (Player db)
            | None \<Rightarrow> Player db @ [new_player env player (next_uuid db)])"
proof -
  obtain row db1 where u:
      "player_upsert env (mlbId player) (new_player env player 0) (traded env player) db = Inr (row, db1)"
      "Player db1 =
             (case find (\<lambda>r. p_mlbId r = mlbId player) (Player db) of
                Some ex \<Rightarrow> map (\<lambda>r. if p_id r = p_id ex then traded env player r else r) (Player db)
              | None \<Rightarrow> Player db @ [new_player env player (next_uuid db)])"
    using player_upsert_result [OF assms] by blast
  show ?thesis
    unfolding seed_step_unfold u(1)
    by (auto simp: u(2) split: sum.splits dest: seasonStats_upsert_Player)
qed

lemma seed_step_failed_player_write:
  assumes "fails env PlayerFindFirst \<or> fails env PlayerWrite"
  shows "seed_step seasonYear env player (db, c) = (db, c\<lparr>skippedCount := Suc (skippedCount c)\<rparr>)"
proof -
  have "\<exists>e. player_upsert env (mlbId player) (new_player env player 0) (traded env player) db = Inl e"
    using assms
    by (auto simp: player_upsert_def player_findFirst_def player_update_def player_create_def
          split: option.splits)
  then show ?thesis
    unfolding seed_step_unfold by auto
qed

lemma seed_step_counts:
  "createdCount (snd (seed_step seasonYear env player (db, c))) +
   skippedCount (snd (seed_step seasonYear env player (db, c))) = Suc (createdCount c + skippedCount c)"
  unfolding seed_step_unfold by (auto split: sum.splits)




lemma traded_keys [simp]:
  "p_mlbId (traded env player r) = p_mlbId r" "p_id (traded env player r) = p_id r"
  by (simp_all add: traded_def)

lemma traded_keeps_ids:
  "map p_mlbId (map (\<lambda>r. if p_id r = i then traded env player r else r) rows) = map p_mlbId rows"
  by (induction rows) (simp_all add: traded_def)

lemma seed_step_ids:
  assumes "\<not> fails env PlayerFindFirst" and "\<not> fails env PlayerWrite"
  shows "map p_mlbId (Player (fst (seed_step seasonYear env player (db, c)))) =
           (if mlbId player \<in> set (map p_mlbId (Player db)) then map p_mlbId (Player db)
            else map p_mlbId (Player db) @ [mlbId player])"
proof (cases "find (\<lambda>r. p_mlbId r = mlbId player) (Player db)")
  case None
  then have "mlbId player \<notin> set (map p_mlbId (Player db))"
    by (auto simp: find_None_iff)
  then show ?thesis
    using assms None by (simp add: seed_step_Player new_player_def del: set_map)
next
  case (Some ex)
  then have "ex \<in> set (Player db) \<and> p_mlbId ex = mlbId player"
    by (rule find_in_set)
  then have "mlbId player \<in> set (map p_mlbId (Player db))" by force
  then show ?thesis
    using assms Some by (simp add: seed_step_Player traded_keeps_ids del: set_map)
qed

lemma seed_step_keeps_ids:
  "set (map p_mlbId (Player (fst st))) \<subseteq> set (map p_mlbId (Player (fst (seed_step seasonYear env player st))))"
proof (cases "fails env PlayerFindFirst \<or> fails env PlayerWrite")
  case True
  then show ?thesis
    by (cases st) (simp add: seed_step_failed_player_write)
next
  case False
  obtain db c where st: "st = (db, c)" by (cases st)
  show ?thesis
    using False unfolding st by (auto simp add: seed_step_ids simp del: set_map)
qed

lemma seed_step_stores_id:
  assumes "\<not> fails env PlayerFindFirst" and "\<not> fails env PlayerWrite"
  shows "mlbId player \<in> set (map p_mlbId (Player (fst (seed_step seasonYear env player st))))"
proof -
  obtain db c where st: "st = (db, c)" by (cases st)
  show ?thesis
    using assms unfolding st by (simp add: seed_step_ids del: set_map)
qed

lemma seed_loop_keeps_ids:
  "set (map p_mlbId (Player (fst st))) \<subseteq> set (map p_mlbId (Player (fst (seed_loop env seasonYear i players st))))"
proof (induction players arbitrary: i st)
  case Nil
  then show ?case by simp
next
  case (Cons p ps)
  show ?case
    using seed_step_keeps_ids [of st seasonYear "env i" p]
          Cons.IH [where i = "Suc i" and st = "seed_step seasonYear (env i) p st"]
    by (auto simp del: set_map)
qed

lemma seed_loop_stores_id:
  assumes "k < length players"
      and "\<not> fails (env (i + k)) PlayerFindFirst" and "\<not> fails (env (i + k)) PlayerWrite"
  shows "mlbId (players ! k) \<in> set (map p_mlbId (Player (fst (seed_loop env seasonYear i players st))))"
  using assms
proof (induction players arbitrary: i k st)
  case Nil
  then show ?case by simp
next
  case (Cons p ps)
  show ?case
  proof (cases k)
    case 0
    then have "mlbId ((p # ps) ! k) \<in> set (map p_mlbId (Player (fst (seed_step seasonYear (env i) p st))))"
      using Cons.prems by (simp add: seed_step_stores_id del: set_map)
    then show ?thesis
      using seed_loop_keeps_ids [of "seed_step seasonYear (env i) p st" env seasonYear "Suc i" ps]
      by (auto simp del: set_map)
  next
    case (Suc j)
    then show ?thesis
      using Cons.prems
            Cons.IH [where k = j and i = "Suc i" and st = "seed_step seasonYear (env i) p st"]
      by simp
  qed
qed

lemma find_after_trade:
  assumes "find (\<lambda>r. p_mlbId r = m) rows = Some ex"
  shows "find (\<lambda>r. p_mlbId r = m) (map (\<lambda>r. if p_id r = p_id ex then traded env player r else r) rows)
         = Some (traded env player ex)"
  using assms by (induction rows) (auto split: if_splits)

lemma traded_keeps_names:
  "map p_name (map (\<lambda>r. if p_id r = i then traded env player r else r) rows) = map p_name rows"
  "map p_photoUrl (map (\<lambda>r. if p_id r = i then traded env player r else r) rows) = map p_photoUrl rows"
  "map p_createdAt (map (\<lambda>r. if p_id r = i then traded env player r else r) rows) = map p_createdAt rows"
  by (induction rows) (simp_all add: traded_def)

lemma legacy_seed_step_PPlayer:
  assumes "\<not> fails env PrismaPlayerUpsert"
  shows "PPlayer (fst (legacy_seed_step seasonYear env player (db, c))) =
           (case find (\<lambda>r. lp_mlbId r = mlbId player) (PPlayer db) of
              Some ex \<Rightarrow> map (\<lambda>r. if lp_mlbId r = mlbId player then legacy_corrected env player r else r) (PPlayer db)
            | None \<Rightarrow> PPlayer db @ [legacy_new_player env seasonYear player (prisma_next_uuid db)])"
proof -
  have "legacy_corrected env player =
        (\<lambda>r. r\<lparr>lp_name := name player, lp_teamAbbr := teamAbbr player,
               lp_hrsPreviousSeason := homeRuns player, lp_isEligible := (homeRuns player \<ge> 10),
               lp_photoUrl := set_if_defined (photoUrl player) (lp_photoUrl r),
               lp_updatedAt := now env\<rparr>)"
    by (rule ext) (simp add: legacy_corrected_def)
  then show ?thesis
    using assms
    by (auto simp: legacy_seed_step_def legacy_player_upsert_def legacy_new_player_def Let_def
          split: option.splits prod.splits)
qed

text \<open>
  C4 (as amended). When the fetched record's external id matches a stored Player, the
  resolver behind the Supabase service layer sets that Player's team to the fetched team
  and refreshes \<open>updatedAt\<close>; it keeps the stored name, photo and creation time of
  every Player and creates no Player. When the id is unseen it creates a Player with the
  given name, team and photo (an empty photo URL stored as null). The Prisma variant of
  the resolver overwrites name and team (and the photo when one is fetched) of the
  matching Player, and creates a Player for an unseen id likewise.
\<close>

theorem seed_step_updates_team_or_creates:
  "(find (\<lambda>r. p_mlbId r = mlbId player) (Player db) = Some existing \<and>
    \<not> fails env PlayerFindFirst \<and> \<not> fails env PlayerWrite \<longrightarrow>
      Player (fst (seed_step seasonYear env player (db, c)))
        = map (\<lambda>r. if p_id r = p_id existing then traded env player r else r) (Player db) \<and>
      find (\<lambda>r. p_mlbId r = mlbId player) (Player (fst (seed_step seasonYear env player (db, c))))
        = Some (existing\<lparr>p_teamAbbr := teamAbbr player, p_updatedAt := now env\<rparr>) \<and>
      length (Player (fst (seed_step seasonYear env player (db, c)))) = length (Player db) \<and>
      map p_name (Player (fst (seed_step seasonYear env player (db, c)))) = map p_name (Player db) \<and>
      map p_photoUrl (Player (fst (seed_step seasonYear env player (db, c)))) = map p_photoUrl (Player db)) \<and>
   (find (\<lambda>r. p_mlbId r = mlbId player) (Player db) = None \<and>
    \<not> fails env PlayerFindFirst \<and> \<not> fails env PlayerWrite \<longrightarrow>
      Player (fst (seed_step seasonYear env player (db, c)))
        = Player db @ [\<lparr>p_id = next_uuid db, p_mlbId = mlbId player, p_name = name player,
                         p_teamAbbr = teamAbbr player, p_photoUrl = photo_or_null (photoUrl player),
                         p_createdAt = now env, p_updatedAt = now env\<rparr>]) \<and>
   (find (\<lambda>r. lp_mlbId r = mlbId player) (PPlayer pdb) = Some known \<and> \<not> fails env PrismaPlayerUpsert \<longrightarrow>
      PPlayer (fst (legacy_seed_step seasonYear env player (pdb, c)))
        = map (\<lambda>r. if lp_mlbId r = mlbId player then legacy_corrected env player r else r) (PPlayer pdb)) \<and>
   (find (\<lambda>r. lp_mlbId r = mlbId player) (PPlayer pdb) = None \<and> \<not> fails env PrismaPlayerUpsert \<longrightarrow>
      PPlayer (fst (legacy_seed_step seasonYear env player (pdb, c)))
        = PPlayer pdb @ [legacy_new_player env seasonYear player (prisma_next_uuid pdb)])"
proof (intro conjI impI)
  assume a: "find (\<lambda>r. p_mlbId r = mlbId player) (Player db) = Some existing \<and>
    \<not> fails env PlayerFindFirst \<and> \<not> fails env PlayerWrite"
  then show p: "Player (fst (seed_step seasonYear env player (db, c)))
        = map (\<lambda>r. if p_id r = p_id existing then traded env player r else r) (Player db)"
    by (simp add: seed_step_Player)
  have "traded env player existing = existing\<lparr>p_teamAbbr := teamAbbr player, p_updatedAt := now env\<rparr>"
    by (simp add: traded_def)
  then show "find (\<lambda>r. p_mlbId r = mlbId player) (Player (fst (seed_step seasonYear env player (db, c))))
        = Some (existing\<lparr>p_teamAbbr := teamAbbr player, p_updatedAt := now env\<rparr>)"
    using a by (simp only: p find_after_trade)
  show "length (Player (fst (seed_step seasonYear env player (db, c)))) = length (Player db)"
    by (simp only: p length_map)
  show "map p_name (Player (fst (seed_step seasonYear env player (db, c)))) = map p_name (Player db)"
    by (simp only: p traded_keeps_names)
  show "map p_photoUrl (Player (fst (seed_step seasonYear env player (db, c)))) = map p_photoUrl (Player db)"
    by (simp only: p traded_keeps_names)
next
  assume "find (\<lambda>r. p_mlbId r = mlbId player) (Player db) = None \<and>
    \<not> fails env PlayerFindFirst \<and> \<not> fails env PlayerWrite"
  then show "Player (fst (seed_step seasonYear env player (db, c)))
        = Player db @ [\<lparr>p_id = next_uuid db, p_mlbId = mlbId player, p_name = name player,
                         p_teamAbbr = teamAbbr player, p_photoUrl = photo_or_null (photoUrl player),
                         p_createdAt = now env, p_updatedAt = now env\<rparr>]"
    by (simp add: seed_step_Player new_player_def)
next
  assume "find (\<lambda>r. lp_mlbId r = mlbId player) (PPlayer pdb) = Some known \<and> \<not> fails env PrismaPlayerUpsert"
  then show "PPlayer (fst (legacy_seed_step seasonYear env player (pdb, c)))
        = map (\<lambda>r. if lp_mlbId r = mlbId player then legacy_corrected env player r else r) (PPlayer pdb)"
    by (simp add: legacy_seed_step_PPlayer)
next
  assume "find (\<lambda>r. lp_mlbId r = mlbId player) (PPlayer pdb) = None \<and> \<not> fails env PrismaPlayerUpsert"
  then show "PPlayer (fst (legacy_seed_step seasonYear env player (pdb, c)))
        = PPlayer pdb @ [legacy_new_player env seasonYear player (prisma_next_uuid pdb)]"
    by (simp add: legacy_seed_step_PPlayer)
qed

text \<open>
  C4 as stated fails on the resolver behind the Supabase service layer: a fetched record
  with another spelling of the name of a known Player changes the team and leaves the
  stored name (and the photo) as they were.
\<close>

theorem seedPlayersToDatabase_keeps_name_counterexample:
  "name renamed_judge = ''Aaron J. Judge'' \<and>
   map p_mlbId (Player judge_db) = [mlbId renamed_judge] \<and>
   map p_name (Player (fst (seedPlayersToDatabase (\<lambda>i. ok_tick 100) [renamed_judge] 2025 judge_db)))
     = [''Aaron Judge''] \<and>
   map p_teamAbbr (Player (fst (seedPlayersToDatabase (\<lambda>i. ok_tick 100) [renamed_judge] 2025 judge_db)))
     = [''LAD''] \<and>
   map p_photoUrl (Player (fst (seedPlayersToDatabase (\<lambda>i. ok_tick 100) [renamed_judge] 2025 judge_db)))
     = [None]"
  by code_simp

text \<open>An instance: a record for a known player moves the player to the fetched team and
  keeps the stored name, where the Prisma variant takes the fetched name; a record for an
  unseen player adds a row.\<close>

theorem seed_step_updates_team_or_creates_witness:
  "Player (fst (seed_step 2025 (ok_tick 100) renamed_judge (judge_db, no_counts)))
     = [judge_player_row\<lparr>p_teamAbbr := ''LAD'', p_updatedAt := 100\<rparr>] \<and>
   map p_name (Player (fst (seed_step 2025 (ok_tick 100) renamed_judge (judge_db, no_counts))))
     = [''Aaron Judge''] \<and>
   Player (fst (seed_step 2025 (ok_tick 100) soto (judge_db, no_counts)))
     = [judge_player_row,
        \<lparr>p_id = 2, p_mlbId = ''mlb-665742'', p_name = ''Juan Soto'', p_teamAbbr = ''UNK'',
          p_photoUrl = None, p_createdAt = 100, p_updatedAt = 100\<rparr>] \<and>
   map lp_name (PPlayer (fst (legacy_seed_step 2025 (ok_tick 100) renamed_judge (judge_prisma_db, no_counts))))
     = [''Aaron J. Judge''] \<and>
   map lp_mlbId (PPlayer (fst (legacy_seed_step 2025 (ok_tick 100) soto (judge_prisma_db, no_counts))))
     = [''mlb-592450'', ''mlb-665742'']"
proof -
  have nf: "\<not> fails (ok_tick 100) PlayerFindFirst" "\<not> fails (ok_tick 100) PlayerWrite"
      "\<not> fails (ok_tick 100) PrismaPlayerUpsert"
    by (simp_all add: ok_tick_def)
  have f1: "find (\<lambda>r. p_mlbId r = mlbId renamed_judge) (Player judge_db) = Some judge_player_row"
    by code_simp
  have f2: "find (\<lambda>r. p_mlbId r = mlbId soto) (Player judge_db) = None"
    by code_simp
  have f3: "find (\<lambda>r. lp_mlbId r = mlbId renamed_judge) (PPlayer judge_prisma_db) = Some judge_legacy_row"
    by code_simp
  have f4: "find (\<lambda>r. lp_mlbId r = mlbId soto) (PPlayer judge_prisma_db) = None"
    by code_simp
  note t1 = seed_step_updates_team_or_creates
              [where player = renamed_judge and db = judge_db and existing = judge_player_row
                 and env = "ok_tick 100" and seasonYear = 2025 and c = no_counts
                 and pdb = judge_prisma_db and known = judge_legacy_row]
  note t2 = seed_step_updates_team_or_creates
              [where player = soto and db = judge_db and env = "ok_tick 100" and seasonYear = 2025
                 and c = no_counts and pdb = judge_prisma_db]
  from t1 f1 nf have 1:
    "Player (fst (seed_step 2025 (ok_tick 100) renamed_judge (judge_db, no_counts)))
       = map (\<lambda>r. if p_id r = p_id judge_player_row then traded (ok_tick 100) renamed_judge r else r)
             (Player judge_db)"
    "map p_name (Player (fst (seed_step 2025 (ok_tick 100) renamed_judge (judge_db, no_counts))))
       = map p_name (Player judge_db)"
    by blast+
  from t1 f3 nf have 3:
    "PPlayer (fst (legacy_seed_step 2025 (ok_tick 100) renamed_judge (judge_prisma_db, no_counts)))
       = map (\<lambda>r. if lp_mlbId r = mlbId renamed_judge then legacy_corrected (ok_tick 100) renamed_judge r else r)
             (PPlayer judge_prisma_db)"
    by blast
  from t2 f2 nf have 2:
    "Player (fst (seed_step 2025 (ok_tick 100) soto (judge_db, no_counts)))
       = Player judge_db @ [\<lparr>p_id = next_uuid judge_db, p_mlbId = mlbId soto, p_name = name soto,
                         p_teamAbbr = teamAbbr soto, p_photoUrl = photo_or_null (photoUrl soto),
                         p_createdAt = now (ok_tick 100), p_updatedAt = now (ok_tick 100)\<rparr>]"
    by blast
  from t2 f4 nf have 4:
    "PPlayer (fst (legacy_seed_step 2025 (ok_tick 100) soto (judge_prisma_db, no_counts)))
       = PPlayer judge_prisma_db @ [legacy_new_player (ok_tick 100) 2025 soto (prisma_next_uuid judge_prisma_db)]"
    by blast
  have e1: "map (\<lambda>r. if p_id r = p_id judge_player_row then traded (ok_tick 100) renamed_judge r else r)
             (Player judge_db) = [judge_player_row\<lparr>p_teamAbbr := ''LAD'', p_updatedAt := 100\<rparr>]"
    by code_simp
  have e1n: "map p_name (Player judge_db) = [''Aaron Judge'']"
    by code_simp
  have e2: "Player judge_db @ [\<lparr>p_id = next_uuid judge_db, p_mlbId = mlbId soto, p_name = name soto,
                         p_teamAbbr = teamAbbr soto, p_photoUrl = photo_or_null (photoUrl soto),
                         p_createdAt = now (ok_tick 100), p_updatedAt = now (ok_tick 100)\<rparr>]
       = [judge_player_row,
        \<lparr>p_id = 2, p_mlbId = ''mlb-665742'', p_name = ''Juan Soto'', p_teamAbbr = ''UNK'',
          p_photoUrl = None, p_createdAt = 100, p_updatedAt = 100\<rparr>]"
    by code_simp
  have e3: "map lp_name (map (\<lambda>r. if lp_mlbId r = mlbId renamed_judge then legacy_corrected (ok_tick 100) renamed_judge r else r)
             (PPlayer judge_prisma_db)) = [''Aaron J. Judge'']"
    by code_simp
  have e4: "map lp_mlbId (PPlayer judge_prisma_db @ [legacy_new_player (ok_tick 100) 2025 soto (prisma_next_uuid judge_prisma_db)])
       = [''mlb-592450'', ''mlb-665742'']"
    by code_simp
  have "Player (fst (seed_step 2025 (ok_tick 100) renamed_judge (judge_db, no_counts)))
     = [judge_player_row\<lparr>p_teamAbbr := ''LAD'', p_updatedAt := 100\<rparr>]"
    by (simp only: 1(1) e1)
  moreover have "map p_name (Player (fst (seed_step 2025 (ok_tick 100) renamed_judge (judge_db, no_counts))))
     = [''Aaron Judge'']"
    by (simp only: 1(2) e1n)
  moreover have "Player (fst (seed_step 2025 (ok_tick 100) soto (judge_db, no_counts)))
     = [judge_player_row,
        \<lparr>p_id = 2, p_mlbId = ''mlb-665742'', p_name = ''Juan Soto'', p_teamAbbr = ''UNK'',
          p_photoUrl = None, p_createdAt = 100, p_updatedAt = 100\<rparr>]"
    by (simp only: 2 e2)
  moreover have "map lp_name (PPlayer (fst (legacy_seed_step 2025 (ok_tick 100) renamed_judge (judge_prisma_db, no_counts))))
     = [''Aaron J. Judge'']"
    by (simp only: 3 e3)
  moreover have "map lp_mlbId (PPlayer (fst (legacy_seed_step 2025 (ok_tick 100) soto (judge_prisma_db, no_counts))))
     = [''mlb-592450'', ''mlb-665742'']"
    by (simp only: 4 e4)
  ultimately show ?thesis
    by blast
qed

lemma last_team_None: "last_team ps m = None \<longleftrightarrow> m \<notin> mlbId ` set ps"
  by (induction ps) (auto split: option.splits)

lemma upsert_rows_present:
  "mlbId player \<in> set (map p_mlbId rows) \<Longrightarrow>
     upsert_rows env player i rows
       = map (\<lambda>r. if p_mlbId r = mlbId player then traded env player r else r) rows"
  by (simp add: upsert_rows_def del: set_map)

lemma upsert_rows_absent:
  "mlbId player \<notin> set (map p_mlbId rows) \<Longrightarrow>
     upsert_rows env player i rows = rows @ [new_player env player i]"
  by (simp add: upsert_rows_def del: set_map)

lemma find_Some_present:
  "find (\<lambda>r. p_mlbId r = m) rows = Some ex \<Longrightarrow> m \<in> set (map p_mlbId rows)"
  by (induction rows) (auto split: if_splits)

lemma find_None_absent:
  "find (\<lambda>r. p_mlbId r = m) rows = None \<Longrightarrow> m \<notin> set (map p_mlbId rows)"
  by (induction rows) (auto split: if_splits)

lemma seed_step_upsert_rows:
  assumes "wf_db db" and "\<not> fails env PlayerFindFirst" and "\<not> fails env PlayerWrite"
  shows "Player (fst (seed_step seasonYear env player (db, c)))
           = upsert_rows env player (next_uuid db) (Player db)"
proof (cases "find (\<lambda>r. p_mlbId r = mlbId player) (Player db)")
  case None
  then have "mlbId player \<notin> set (map p_mlbId (Player db))"
    by (auto simp: find_None_iff)
  then show ?thesis
    using assms None by (simp add: seed_step_Player upsert_rows_def del: set_map)
next
  case (Some ex)
  then have ex: "ex \<in> set (Player db)" "p_mlbId ex = mlbId player"
    using find_in_set by fastforce+
  then have "mlbId player \<in> set (map p_mlbId (Player db))" by force
  moreover have "map (\<lambda>r. if p_id r = p_id ex then traded env player r else r) (Player db)
        = map (\<lambda>r. if p_mlbId r = p_mlbId ex then traded env player r else r) (Player db)"
    using assms(1) ex(1) by (intro update_by_id_is_by_mlbId) (simp_all add: wf_db_def)
  ultimately show ?thesis
    using assms Some ex(2) by (simp add: seed_step_Player upsert_rows_def del: set_map)
qed

lemma seed_step_next_uuid:
  assumes "\<not> fails env PlayerFindFirst" and "\<not> fails env PlayerWrite"
  shows "(if mlbId player \<in> set (map p_mlbId (Player db)) then next_uuid db else Suc (next_uuid db))
           \<le> next_uuid (fst (seed_step seasonYear env player (db, c)))"
proof -
  obtain row db1 where u:
      "player_upsert env (mlbId player) (new_player env player 0) (traded env player) db = Inr (row, db1)"
      "next_uuid db1 =
             (case find (\<lambda>r. p_mlbId r = mlbId player) (Player db) of
                Some ex \<Rightarrow> next_uuid db | None \<Rightarrow> Suc (next_uuid db))"
    using player_upsert_result [OF assms] by blast
  have "next_uuid db1 \<le> next_uuid (fst (seed_step seasonYear env player (db, c)))"
    unfolding seed_step_unfold u(1)
    by (auto split: sum.splits dest: seasonStats_upsert_Player)
  moreover have "(if mlbId player \<in> set (map p_mlbId (Player db)) then next_uuid db else Suc (next_uuid db))
                   \<le> next_uuid db1"
  proof (cases "find (\<lambda>r. p_mlbId r = mlbId player) (Player db)")
    case None
    then show ?thesis using u(2) find_None_absent [OF None] by (simp del: set_map)
  next
    case (Some ex)
    then show ?thesis using u(2) find_Some_present [OF Some] by (simp del: set_map)
  qed
  ultimately show ?thesis by (rule order_trans [rotated])
qed

lemma wf_db_seed_step:
  assumes "wf_db db" and "\<not> fails env PlayerFindFirst" and "\<not> fails env PlayerWrite"
  shows "wf_db (fst (seed_step seasonYear env player (db, c)))"
proof -
  let ?db' = "fst (seed_step seasonYear env player (db, c))"
  have rows: "Player ?db' = upsert_rows env player (next_uuid db) (Player db)"
    using assms by (rule seed_step_upsert_rows)
  have nxt: "(if mlbId player \<in> set (map p_mlbId (Player db)) then next_uuid db else Suc (next_uuid db))
           \<le> next_uuid ?db'"
    using assms(2,3) by (rule seed_step_next_uuid)
  have old: "distinct (map p_id (Player db))" "distinct (map p_mlbId (Player db))"
       "\<forall>r \<in> set (Player db). p_id r < next_uuid db"
    using assms(1) by (simp_all add: wf_db_def list_all_iff)
  show ?thesis
  proof (cases "mlbId player \<in> set (map p_mlbId (Player db))")
    case True
    let ?f = "\<lambda>r. if p_mlbId r = mlbId player then traded env player r else r"
    have r: "Player ?db' = map ?f (Player db)"
      by (simp only: rows upsert_rows_present [OF True])
    have "map p_id (map ?f (Player db)) = map p_id (Player db)"
         "map p_mlbId (map ?f (Player db)) = map p_mlbId (Player db)"
      by simp_all
    moreover have "\<forall>r \<in> set (map ?f (Player db)). p_id r < next_uuid ?db'"
      using True old(3) nxt by auto
    ultimately show ?thesis
      using old(1,2) unfolding wf_db_def r list_all_iff by (simp only:)
  next
    case False
    have r: "Player ?db' = Player db @ [new_player env player (next_uuid db)]"
      by (simp only: rows upsert_rows_absent [OF False])
    have "next_uuid db \<notin> set (map p_id (Player db))"
      using old(3) by auto
    then show ?thesis
      using False old nxt unfolding wf_db_def r list_all_iff
      by (auto simp: new_player_def)
  qed
qed

lemma upsert_rows_other_ids:
  assumes "mlbId player \<noteq> m"
  shows "filter (\<lambda>r. p_mlbId r = m) (upsert_rows env player i rows) = filter (\<lambda>r. p_mlbId r = m) rows"
proof (cases "mlbId player \<in> set (map p_mlbId rows)")
  case True
  have "filter (\<lambda>r. p_mlbId r = m)
          (map (\<lambda>r. if p_mlbId r = mlbId player then traded env player r else r) rows)
        = filter (\<lambda>r. p_mlbId r = m) rows"
    using assms by (intro filter_map_frame) auto
  then show ?thesis by (simp only: upsert_rows_present [OF True])
next
  case False
  then show ?thesis using assms by (simp add: upsert_rows_absent new_player_def del: set_map)
qed

lemma seed_step_player_faulty:
  "player_faulty env \<Longrightarrow>
     seed_step seasonYear env player (db, c) = (db, c\<lparr>skippedCount := Suc (skippedCount c)\<rparr>)"
  unfolding player_faulty_def by (rule seed_step_failed_player_write)

lemma wf_db_seed_step_any:
  assumes "wf_db db"
  shows "wf_db (fst (seed_step seasonYear env player (db, c)))"
proof (cases "player_faulty env")
  case True
  then show ?thesis
    using assms by (simp add: seed_step_player_faulty)
next
  case False
  then show ?thesis
    using assms by (intro wf_db_seed_step) (simp_all add: player_faulty_def)
qed

lemma wf_db_seed_loop:
  assumes "wf_db (fst st)"
  shows "wf_db (fst (seed_loop env seasonYear i players st))"
  using assms
proof (induction players arbitrary: i st)
  case Nil
  then show ?case by simp
next
  case (Cons p ps)
  obtain db c where st: "st = (db, c)" by (cases st)
  have "wf_db (fst (seed_step seasonYear (env i) p st))"
    using Cons.prems unfolding st by (simp add: wf_db_seed_step_any)
  then show ?case
    using Cons.IH by simp
qed

lemma seed_step_untouched:
  assumes "wf_db db" and "mlbId player = m \<longrightarrow> player_faulty env"
  shows "filter (\<lambda>r. p_mlbId r = m) (Player (fst (seed_step seasonYear env player (db, c))))
           = filter (\<lambda>r. p_mlbId r = m) (Player db)"
proof (cases "player_faulty env")
  case True
  then show ?thesis
    by (simp add: seed_step_player_faulty)
next
  case False
  then have "mlbId player \<noteq> m"
    using assms(2) by blast
  moreover have "Player (fst (seed_step seasonYear env player (db, c)))
                   = upsert_rows env player (next_uuid db) (Player db)"
    using assms(1) False by (intro seed_step_upsert_rows) (simp_all add: player_faulty_def)
  ultimately show ?thesis
    by (simp add: upsert_rows_other_ids)
qed

lemma seed_loop_untouched:
  assumes "wf_db (fst st)"
      and "\<forall>k<length players. mlbId (players ! k) = m \<longrightarrow> player_faulty (env (i + k))"
  shows "filter (\<lambda>r. p_mlbId r = m) (Player (fst (seed_loop env seasonYear i players st)))
           = filter (\<lambda>r. p_mlbId r = m) (Player (fst st))"
  using assms
proof (induction players arbitrary: i st)
  case Nil
  then show ?case by simp
next
  case (Cons p ps)
  obtain db c where st: "st = (db, c)" by (cases st)
  let ?st' = "seed_step seasonYear (env i) p st"
  have "0 < length (p # ps)" by simp
  then have "mlbId ((p # ps) ! 0) = m \<longrightarrow> player_faulty (env (i + 0))"
    using Cons.prems(2) by blast
  then have head: "mlbId p = m \<longrightarrow> player_faulty (env i)"
    by simp
  have tail: "\<forall>k<length ps. mlbId (ps ! k) = m \<longrightarrow> player_faulty (env (Suc i + k))"
  proof (intro allI impI)
    fix k assume "k < length ps" "mlbId (ps ! k) = m"
    then have "Suc k < length (p # ps)" "mlbId ((p # ps) ! Suc k) = m" by simp_all
    then have "player_faulty (env (i + Suc k))" using Cons.prems(2) by blast
    then show "player_faulty (env (Suc i + k))" by simp
  qed
  have wf': "wf_db (fst ?st')"
    using Cons.prems(1) unfolding st by (simp add: wf_db_seed_step_any)
  have "filter (\<lambda>r. p_mlbId r = m) (Player (fst ?st')) = filter (\<lambda>r. p_mlbId r = m) (Player (fst st))"
    using Cons.prems(1) head unfolding st by (simp add: seed_step_untouched)
  moreover have "filter (\<lambda>r. p_mlbId r = m) (Player (fst (seed_loop env seasonYear (Suc i) ps ?st')))
          = filter (\<lambda>r. p_mlbId r = m) (Player (fst ?st'))"
    using wf' tail by (rule Cons.IH)
  ultimately show ?case by simp
qed

lemma seed_loop_other_ids:
  assumes "wf_db (fst st)" and "m \<notin> mlbId ` set players"
  shows "filter (\<lambda>r. p_mlbId r = m) (Player (fst (seed_loop env seasonYear i players st)))
           = filter (\<lambda>r. p_mlbId r = m) (Player (fst st))"
proof -
  have "\<forall>k<length players. mlbId (players ! k) = m \<longrightarrow> player_faulty (env (i + k))"
    using assms(2) by (metis image_eqI nth_mem)
  with assms(1) show ?thesis
    by (rule seed_loop_untouched)
qed









lemma upsert_rows_sets_team:
  assumes "r \<in> set (upsert_rows env player i rows)" and "mlbId player = p_mlbId r"
      and "t = teamAbbr player"
  shows "p_teamAbbr r = t"
proof (cases "mlbId player \<in> set (map p_mlbId rows)")
  case True
  have "r \<in> set (map (\<lambda>x. if p_mlbId x = mlbId player then traded env player x else x) rows)"
    using assms(1) by (simp only: upsert_rows_present [OF True])
  then obtain x where x: "x \<in> set rows" "r = (if p_mlbId x = mlbId player then traded env player x else x)"
    by auto
  then have "r = traded env player x"
    using assms(2) by (cases "p_mlbId x = mlbId player") auto
  then show ?thesis
    using assms(3) by (simp add: traded_def)
next
  case False
  have "r \<in> set (rows @ [new_player env player i])"
    using assms(1) by (simp only: upsert_rows_absent [OF False])
  then have "r = new_player env player i"
    using False assms(2) by auto
  then show ?thesis
    using assms(3) by (simp add: new_player_def)
qed

lemma player_calls_head:
  assumes "\<forall>k<length (p # ps). \<not> player_faulty (env (i + k))"
  shows "\<not> fails (env i) PlayerFindFirst" and "\<not> fails (env i) PlayerWrite"
proof -
  have "0 < length (p # ps)" by simp
  then have "\<not> player_faulty (env (i + 0))"
    using assms by blast
  then show "\<not> fails (env i) PlayerFindFirst" and "\<not> fails (env i) PlayerWrite"
    by (simp_all add: player_faulty_def)
qed

lemma player_calls_tail:
  assumes "\<forall>k<length (p # ps). \<not> player_faulty (env (i + k))"
  shows "\<forall>k<length ps. \<not> player_faulty (env (Suc i + k))"
proof (intro allI impI)
  fix k assume "k < length ps"
  then have "Suc k < length (p # ps)" by simp
  then have "\<not> player_faulty (env (i + Suc k))" using assms by blast
  then show "\<not> player_faulty (env (Suc i + k))" by simp
qed

lemma seed_loop_settles_team:
  assumes "wf_db (fst st)" and "\<forall>k<length players. \<not> player_faulty (env (i + k))"
      and "r \<in> set (Player (fst (seed_loop env seasonYear i players st)))"
      and "last_team players (p_mlbId r) = Some t"
  shows "p_teamAbbr r = t"
  using assms
proof (induction players arbitrary: i st)
  case Nil
  then show ?case by simp
next
  case (Cons p ps)
  obtain db c where st: "st = (db, c)" by (cases st)
  let ?st' = "seed_step seasonYear (env i) p st"
  note nf = player_calls_head [OF Cons.prems(2)]
  note ok' = player_calls_tail [OF Cons.prems(2)]
  have wf': "wf_db (fst ?st')"
    using Cons.prems(1) unfolding st by (simp add: wf_db_seed_step_any)
  have r: "r \<in> set (Player (fst (seed_loop env seasonYear (Suc i) ps ?st')))"
    using Cons.prems(3) by simp
  show ?case
  proof (cases "last_team ps (p_mlbId r)")
    case (Some t')
    then have "t' = t" using Cons.prems(4) by simp
    then show ?thesis using Cons.IH [OF wf' ok' r] Some by simp
  next
    case None
    then have p: "mlbId p = p_mlbId r" "t = teamAbbr p"
      using Cons.prems(4) by (auto split: if_splits)
    have "p_mlbId r \<notin> mlbId ` set ps"
      using None by (simp add: last_team_None)
    then have "filter (\<lambda>x. p_mlbId x = p_mlbId r) (Player (fst (seed_loop env seasonYear (Suc i) ps ?st')))
          = filter (\<lambda>x. p_mlbId x = p_mlbId r) (Player (fst ?st'))"
      using wf' by (intro seed_loop_other_ids)
    moreover have "r \<in> set (filter (\<lambda>x. p_mlbId x = p_mlbId r)
                                 (Player (fst (seed_loop env seasonYear (Suc i) ps ?st'))))"
      using r by simp
    ultimately have "r \<in> set (filter (\<lambda>x. p_mlbId x = p_mlbId r) (Player (fst ?st')))"
      by simp
    then have "r \<in> set (Player (fst ?st'))"
      by simp
    then have "r \<in> set (upsert_rows (env i) p (next_uuid db) (Player db))"
      using Cons.prems(1) nf unfolding st by (simp add: seed_step_upsert_rows)
    then show ?thesis
      using p by (rule upsert_rows_sets_team)
  qed
qed

lemma seed_loop_known_ids:
  assumes "wf_db (fst st)" and "\<forall>k<length players. \<not> player_faulty (env (i + k))"
      and "mlbId ` set players \<subseteq> set (map p_mlbId (Player (fst st)))"
  shows "map without_updatedAt (Player (fst (seed_loop env seasonYear i players st))) =
         map (\<lambda>r. case last_team players (p_mlbId r) of
                     None \<Rightarrow> without_updatedAt r
                   | Some t \<Rightarrow> without_updatedAt (r\<lparr>p_teamAbbr := t\<rparr>))
             (Player (fst st))"
  using assms
proof (induction players arbitrary: i st)
  case Nil
  then show ?case by simp
next
  case (Cons p ps)
  obtain db c where st: "st = (db, c)" by (cases st)
  let ?st' = "seed_step seasonYear (env i) p st"
  let ?f = "\<lambda>r. if p_mlbId r = mlbId p then traded (env i) p r else r"
  let ?g = "\<lambda>r. case last_team ps (p_mlbId r) of
                     None \<Rightarrow> without_updatedAt r
                   | Some t \<Rightarrow> without_updatedAt (r\<lparr>p_teamAbbr := t\<rparr>)"
  let ?G = "\<lambda>r. case last_team (p # ps) (p_mlbId r) of
                     None \<Rightarrow> without_updatedAt r
                   | Some t \<Rightarrow> without_updatedAt (r\<lparr>p_teamAbbr := t\<rparr>)"
  note nf = player_calls_head [OF Cons.prems(2)]
  note ok' = player_calls_tail [OF Cons.prems(2)]
  have wf': "wf_db (fst ?st')"
    using Cons.prems(1) unfolding st by (simp add: wf_db_seed_step_any)
  have present: "mlbId p \<in> set (map p_mlbId (Player db))"
    using Cons.prems(3) unfolding st by simp
  have "Player (fst ?st') = upsert_rows (env i) p (next_uuid db) (Player db)"
    using Cons.prems(1) nf unfolding st by (simp add: seed_step_upsert_rows)
  then have rows': "Player (fst ?st') = map ?f (Player db)"
    by (simp only: upsert_rows_present [OF present])
  have "map p_mlbId (map ?f (Player db)) = map p_mlbId (Player db)"
    by simp
  then have idsmap: "map p_mlbId (Player (fst ?st')) = map p_mlbId (Player db)"
    by (simp only: rows')
  have "mlbId ` set ps \<subseteq> set (map p_mlbId (Player db))"
    using Cons.prems(3) unfolding st by simp
  then have ids': "mlbId ` set ps \<subseteq> set (map p_mlbId (Player (fst ?st')))"
    by (simp only: idsmap)
  have gf: "?g (?f r) = ?G r" for r
  proof (cases "p_mlbId r = mlbId p")
    case False
    then show ?thesis
      by (cases "last_team ps (p_mlbId r)") auto
  next
    case True
    have "?g (traded (env i) p r) = ?G r"
    proof (cases "last_team ps (mlbId p)")
      case None
      then show ?thesis
        using True by (simp add: traded_def without_updatedAt_def)
    next
      case (Some t)
      then show ?thesis
        using True by (simp add: traded_def without_updatedAt_def)
    qed
    then show ?thesis
      using True by simp
  qed
  have "map without_updatedAt (Player (fst (seed_loop env seasonYear (Suc i) ps ?st')))
          = map ?g (Player (fst ?st'))"
    using wf' ok' ids' by (rule Cons.IH)
  also have "\<dots> = map (\<lambda>r. ?g (?f r)) (Player db)"
    unfolding rows' by (simp only: map_map comp_def)
  also have "\<dots> = map ?G (Player db)"
    by (simp only: gf)
  finally show ?case by (simp add: st)
qed

lemma settled_rows:
  assumes "\<forall>r \<in> set rows. \<forall>t. last_team players (p_mlbId r) = Some t \<longrightarrow> p_teamAbbr r = t"
  shows "map (\<lambda>r. case last_team players (p_mlbId r) of
                     None \<Rightarrow> without_updatedAt r
                   | Some t \<Rightarrow> without_updatedAt (r\<lparr>p_teamAbbr := t\<rparr>)) rows
         = map without_updatedAt rows"
proof (rule map_cong [OF refl])
  fix r assume r: "r \<in> set rows"
  show "(case last_team players (p_mlbId r) of
                     None \<Rightarrow> without_updatedAt r
                   | Some t \<Rightarrow> without_updatedAt (r\<lparr>p_teamAbbr := t\<rparr>)) = without_updatedAt r"
  proof (cases "last_team players (p_mlbId r)")
    case None
    then show ?thesis by simp
  next
    case (Some t)
    then have "p_teamAbbr r = t" using assms r by blast
    then have "r\<lparr>p_teamAbbr := t\<rparr> = r" by simp
    then show ?thesis using Some by simp
  qed
qed

text \<open>
  C3 (as amended). When in neither run the lookup or the write of a Player throws,
  running the resolver a second time on the same fetched list leaves the Player table as
  the first run left it, except for the \<open>updatedAt\<close> timestamps: the same rows in the
  same order, with the same ids, names, teams and photos, and no external id twice. The
  second run is not free of writes: it issues the team update of every record again,
  which refreshes \<open>updatedAt\<close>.
\<close>

theorem seedPlayersToDatabase_idempotent_up_to_updatedAt:
  assumes "wf_db db"
      and "\<forall>i<length players. \<not> player_faulty (env1 i)"
      and "\<forall>i<length players. \<not> player_faulty (env2 i)"
  shows "map without_updatedAt
           (Player (fst (seedPlayersToDatabase env2 players seasonYear
                           (fst (seedPlayersToDatabase env1 players seasonYear db)))))
         = map without_updatedAt (Player (fst (seedPlayersToDatabase env1 players seasonYear db))) \<and>
         map p_teamAbbr
           (Player (fst (seedPlayersToDatabase env2 players seasonYear
                           (fst (seedPlayersToDatabase env1 players seasonYear db)))))
         = map p_teamAbbr (Player (fst (seedPlayersToDatabase env1 players seasonYear db))) \<and>
         distinct (map p_mlbId
           (Player (fst (seedPlayersToDatabase env2 players seasonYear
                           (fst (seedPlayersToDatabase env1 players seasonYear db))))))"
proof -
  let ?db1 = "fst (seedPlayersToDatabase env1 players seasonYear db)"
  let ?db2 = "fst (seedPlayersToDatabase env2 players seasonYear ?db1)"
  have ok1: "\<forall>k<length players. \<not> player_faulty (env1 (0 + k))"
    using assms(2) by simp
  have ok2: "\<forall>k<length players. \<not> player_faulty (env2 (0 + k))"
    using assms(3) by simp
  have wf1: "wf_db ?db1"
    using assms(1) unfolding seedPlayersToDatabase_def by (intro wf_db_seed_loop) simp
  have wf2: "wf_db ?db2"
    using wf1 unfolding seedPlayersToDatabase_def [of env2] by (intro wf_db_seed_loop) simp
  have ids: "mlbId ` set players \<subseteq> set (map p_mlbId (Player ?db1))"
  proof
    fix m assume "m \<in> mlbId ` set players"
    then obtain k where k: "k < length players" "m = mlbId (players ! k)"
      by (auto simp: in_set_conv_nth)
    have "\<not> fails (env1 (0 + k)) PlayerFindFirst" "\<not> fails (env1 (0 + k)) PlayerWrite"
      using assms(2) k(1) by (simp_all add: player_faulty_def)
    then show "m \<in> set (map p_mlbId (Player ?db1))"
      unfolding seedPlayersToDatabase_def k(2) using k(1) by (intro seed_loop_stores_id)
  qed
  have settled: "\<forall>r \<in> set (Player ?db1). \<forall>t. last_team players (p_mlbId r) = Some t \<longrightarrow> p_teamAbbr r = t"
  proof (intro ballI allI impI)
    fix r t
    assume "r \<in> set (Player ?db1)" "last_team players (p_mlbId r) = Some t"
    then show "p_teamAbbr r = t"
      using assms(1) ok1 unfolding seedPlayersToDatabase_def
      by (intro seed_loop_settles_team [where st = "(db, no_counts)" and env = env1 and i = 0]) simp_all
  qed
  have "map without_updatedAt (Player ?db2) =
         map (\<lambda>r. case last_team players (p_mlbId r) of
                     None \<Rightarrow> without_updatedAt r
                   | Some t \<Rightarrow> without_updatedAt (r\<lparr>p_teamAbbr := t\<rparr>))
             (Player (fst (?db1, no_counts)))"
    unfolding seedPlayersToDatabase_def [of env2]
    using wf1 ok2 ids by (intro seed_loop_known_ids) simp_all
  then have eq: "map without_updatedAt (Player ?db2) = map without_updatedAt (Player ?db1)"
    using settled_rows [OF settled] by simp
  have "map p_teamAbbr (map without_updatedAt (Player ?db2))
          = map p_teamAbbr (map without_updatedAt (Player ?db1))"
    by (simp only: eq)
  then have teams: "map p_teamAbbr (Player ?db2) = map p_teamAbbr (Player ?db1)"
    by (simp add: without_updatedAt_def comp_def)
  have "distinct (map p_mlbId (Player ?db2))"
    using wf2 by (simp add: wf_db_def)
  then show ?thesis
    using eq teams by blast
qed

lemma first_run_eval:
  "Player first_run =
     [\<lparr>p_id = 1, p_mlbId = ''mlb-592450'', p_name = ''Aaron Judge'', p_teamAbbr = ''LAD'',
        p_photoUrl = None, p_createdAt = 100, p_updatedAt = 100\<rparr>,
      \<lparr>p_id = 3, p_mlbId = ''mlb-665742'', p_name = ''Juan Soto'', p_teamAbbr = ''UNK'',
        p_photoUrl = None, p_createdAt = 100, p_updatedAt = 100\<rparr>]"
  by code_simp

lemma second_run_eval:
  "Player second_run =
     [\<lparr>p_id = 1, p_mlbId = ''mlb-592450'', p_name = ''Aaron Judge'', p_teamAbbr = ''LAD'',
        p_photoUrl = None, p_createdAt = 100, p_updatedAt = 200\<rparr>,
      \<lparr>p_id = 3, p_mlbId = ''mlb-665742'', p_name = ''Juan Soto'', p_teamAbbr = ''UNK'',
        p_photoUrl = None, p_createdAt = 100, p_updatedAt = 200\<rparr>]"
  by code_simp

lemma rejected_first_run_eval:
  "Player rejected_first_run = []"
  "map p_mlbId (Player (fst (seedPlayersToDatabase (\<lambda>i. ok_tick 200) [judge 58] 2025 rejected_first_run)))
     = [''mlb-592450'']"
  by code_simp+

lemma rejected_second_run_eval:
  "map p_teamAbbr (Player (fst (seedPlayersToDatabase (\<lambda>i. ok_tick 100) [judge 58, renamed_judge] 2025 empty_db)))
     = [''LAD'']"
  "map p_teamAbbr (Player rejected_second_run) = [''UNK'']"
  by code_simp+

text \<open>
  C3 as stated fails in its last part: the second run on identical input writes again.
  Every row named by the input carries the time of the second run afterwards, so the
  Player table is not the one the first run left. It fails in its first part, too, once a
  Player write is rejected: a first run whose write was rejected has stored nothing, and
  the second run creates the Player; and a second run whose last write for a Player is
  rejected leaves that Player with the team of an earlier record.
\<close>

theorem seedPlayersToDatabase_second_run_writes_counterexample:
  "map p_updatedAt (Player first_run) = [100, 100] \<and>
   map p_updatedAt (Player second_run) = [200, 200] \<and>
   Player second_run \<noteq> Player first_run \<and>
   Player rejected_first_run = [] \<and>
   map p_mlbId (Player (fst (seedPlayersToDatabase (\<lambda>i. ok_tick 200) [judge 58] 2025 rejected_first_run)))
     = [''mlb-592450''] \<and>
   map p_teamAbbr (Player (fst (seedPlayersToDatabase (\<lambda>i. ok_tick 100) [judge 58, renamed_judge] 2025 empty_db)))
     = [''LAD''] \<and>
   map p_teamAbbr (Player rejected_second_run) = [''UNK'']"
  by (simp add: first_run_eval second_run_eval rejected_first_run_eval rejected_second_run_eval)

lemma src_runs_eval:
  "Player src_first_run =
     [\<lparr>p_id = 1, p_mlbId = ''mlb-592450'', p_name = ''Aaron Judge'', p_teamAbbr = ''LAD'',
        p_photoUrl = None, p_createdAt = 100, p_updatedAt = 100\<rparr>,
      \<lparr>p_id = 2, p_mlbId = ''mlb-665742'', p_name = ''Juan Soto'', p_teamAbbr = ''UNK'',
        p_photoUrl = None, p_createdAt = 100, p_updatedAt = 100\<rparr>]"
  "map p_updatedAt (Player src_second_run) = [200, 200]"
  by code_simp+

text \<open>An instance: two runs over a list that names one player twice, with different teams,
  against a service layer whose calls on \<^verbatim>\<open>playerSeasonStats\<close> all throw (as that of
  \<^verbatim>\<open>db.ts\<close> does).\<close>

theorem seedPlayersToDatabase_idempotent_up_to_updatedAt_witness:
  "wf_db empty_db \<and> \<not> player_faulty (stats_down 100) \<and> \<not> player_faulty (stats_down 200) \<and>
   seed_faulty (stats_down 100) \<and>
   map without_updatedAt (Player src_second_run) = map without_updatedAt (Player src_first_run) \<and>
   map p_teamAbbr (Player src_second_run) = [''LAD'', ''UNK''] \<and>
   map p_updatedAt (Player src_second_run) = [200, 200] \<and>
   distinct (map p_mlbId (Player src_second_run))"
proof -
  have f: "\<not> player_faulty (stats_down 100)" "\<not> player_faulty (stats_down 200)"
          "seed_faulty (stats_down 100)"
    by (simp_all add: stats_down_def player_faulty_def seed_faulty_def)
  have h: "wf_db empty_db"
          "\<forall>i<length fetched_twice. \<not> player_faulty ((\<lambda>i. stats_down 100) i)"
          "\<forall>i<length fetched_twice. \<not> player_faulty ((\<lambda>i. stats_down 200) i)"
    using f by (simp_all add: wf_db_def empty_db_def)
  have t: "map p_teamAbbr (Player src_first_run) = [''LAD'', ''UNK'']"
    by (simp add: src_runs_eval)
  show ?thesis
    using seedPlayersToDatabase_idempotent_up_to_updatedAt [OF h, of 2025] h(1) f t src_runs_eval(2)
    unfolding src_first_run_def [symmetric] src_second_run_def [symmetric]
    by simp
qed

end
